(* ===== verification/Xgt_Prelude.thy ===== *)
theory Xgt_Prelude
  imports Main "HOL-Library.Word" "HOL-Library.Signed_Division"
begin

text \<open>
  The prelude of the development.  It holds what every component shares: the
  exceptions the code can throw and the result type that carries them, the
  little-endian byte streams of \<open>fc::raw\<close> and the interface of a
  serialisable type, and the generic lemmas on lists, words and integers the
  component theories rest on.
\<close>

unbundle bit_operations_syntax

named_theorems result_simps \<open>evaluation and inversion of fallible computations\<close>

section \<open>Exceptions as values\<close>

text \<open>
  Every \<open>FC_ASSERT\<close>, \<open>FC_THROW\<close> and throwing library call of the source is a
  branch of the model that returns one of these errors.  The message of an
  \<open>FC_ASSERT\<close> is kept where the source has one.  \<open>Non_Termination\<close> is the result of a bounded
  loop of the model where the loop of the code would go on forever.
\<close>

datatype fc_error =
    Assert_Exception string
  | Overflow_Exception
  | Underflow_Exception
  | Divide_By_Zero_Exception
  | Out_Of_Range_Exception
  | Bad_Cast_Exception
  | Key_Not_Found_Exception
  | Logic_Error string
  | Tx_Missing_Active_Auth
  | Tx_Missing_Owner_Auth
  | Tx_Missing_Posting_Auth
  | Tx_Missing_Money_Auth
  | Tx_Missing_Social_Auth
  | Tx_Missing_Recovery_Auth
  | Tx_Missing_Other_Auth
  | Tx_Irrelevant_Sig
  | Tx_Duplicate_Sig
  | Unlinkable_Block_Exception
  | Block_Too_Old_Exception
  | Pop_Empty_Chain
  | Undo_Database_Exception
  | Transaction_Expiration_Exception
  | Operation_Validate_Exception
  | Unknown_Hardfork_Exception
  | Non_Termination

type_synonym 'a result = "fc_error + 'a"

definition fc_assert :: "bool \<Rightarrow> string \<Rightarrow> unit result" where
  "fc_assert b msg = (if b then Inr () else Inl (Assert_Exception msg))"

fun res_bind :: "'a result \<Rightarrow> ('a \<Rightarrow> 'b result) \<Rightarrow> 'b result" where
  "res_bind (Inl e) f = Inl e"
| "res_bind (Inr x) f = f x"

fun is_ok :: "'a result \<Rightarrow> bool" where
  "is_ok (Inl e) = False"
| "is_ok (Inr x) = True"

lemma fc_assert_Inr [result_simps]: "fc_assert b msg = Inr u \<longleftrightarrow> b"
  by (simp add: fc_assert_def)

lemma fc_assert_Inl [result_simps]: "fc_assert b msg = Inl e \<longleftrightarrow> \<not> b \<and> e = Assert_Exception msg"
  by (auto simp: fc_assert_def)

lemma res_bind_Inr [result_simps]:
  "res_bind m f = Inr y \<longleftrightarrow> (\<exists>x. m = Inr x \<and> f x = Inr y)"
  by (cases m) auto

lemma res_bind_Inl [result_simps]:
  "res_bind m f = Inl e \<longleftrightarrow> m = Inl e \<or> (\<exists>x. m = Inr x \<and> f x = Inl e)"
  by (cases m) auto

lemma is_ok_iff [result_simps]: "is_ok m \<longleftrightarrow> (\<exists>x. m = Inr x)"
  by (cases m) auto

lemma is_ok_bind [result_simps]:
  "is_ok (res_bind m f) \<longleftrightarrow> (\<exists>x. m = Inr x \<and> is_ok (f x))"
  by (cases m) auto

lemma res_bind_assoc: "res_bind (res_bind m f) g = res_bind m (\<lambda>x. res_bind (f x) g)"
  by (cases m) auto

lemma res_bind_fc_assert [simp]:
  "res_bind (fc_assert b msg) f = (if b then f () else Inl (Assert_Exception msg))"
  by (simp add: fc_assert_def)

text \<open>A loop over a list whose body may throw: the first error ends it.\<close>

fun res_fold :: "('a \<Rightarrow> 's \<Rightarrow> 's result) \<Rightarrow> 'a list \<Rightarrow> 's \<Rightarrow> 's result" where
  "res_fold f [] s = Inr s"
| "res_fold f (x # xs) s = res_bind (f x s) (res_fold f xs)"

lemma res_fold_append:
  "res_fold f (xs @ ys) s = res_bind (res_fold f xs s) (res_fold f ys)"
proof (induction xs arbitrary: s)
  case (Cons x xs)
  then show ?case by (cases "f x s") auto
qed simp

lemma res_fold_invariant:
  assumes "res_fold f xs s = Inr s'" and "I s"
    and "\<And>x s s'. x \<in> set xs \<Longrightarrow> I s \<Longrightarrow> f x s = Inr s' \<Longrightarrow> I s'"
  shows "I s'"
  using assms
proof (induction xs arbitrary: s)
  case (Cons x xs)
  then obtain s1 where "f x s = Inr s1" "res_fold f xs s1 = Inr s'"
    by (auto simp: result_simps)
  with Cons.prems(2,3) Cons.IH[of s1] show ?case by (metis list.set_intros)
qed simp

definition res_of_option :: "fc_error \<Rightarrow> 'a option \<Rightarrow> 'a result" where
  "res_of_option e x = (case x of None \<Rightarrow> Inl e | Some y \<Rightarrow> Inr y)"

lemma res_of_option_Inr [result_simps]: "res_of_option e x = Inr y \<longleftrightarrow> x = Some y"
  by (auto simp: res_of_option_def split: option.splits)

lemma res_of_option_Inl [result_simps]: "res_of_option e x = Inl e' \<longleftrightarrow> x = None \<and> e' = e"
  by (auto simp: res_of_option_def split: option.splits)

lemma res_of_option_Some [simp]: "res_of_option e (Some y) = Inr y"
  by (simp add: res_of_option_def)

lemma res_of_option_None [simp]: "res_of_option e None = Inl e"
  by (simp add: res_of_option_def)

section \<open>Sorted containers\<close>

text \<open>\<open>flat_map\<close>, \<open>flat_set\<close> and the ordered containers of the standard library keep their
  entries sorted by key, without duplicates; \<open>emplace\<close> does not overwrite an entry.\<close>

type_synonym ('k, 'v) flat_map = "('k \<times> 'v) list"
type_synonym 'k flat_set = "'k list"

fun fm_update :: "'k::linorder \<Rightarrow> 'v \<Rightarrow> ('k, 'v) flat_map \<Rightarrow> ('k, 'v) flat_map" where
  "fm_update k v [] = [(k, v)]"
| "fm_update k v ((k', v') # m) =
    (if k = k' then (k, v) # m else if k < k' then (k, v) # (k', v') # m
     else (k', v') # fm_update k v m)"

definition fm_emplace :: "'k::linorder \<Rightarrow> 'v \<Rightarrow> ('k, 'v) flat_map \<Rightarrow> ('k, 'v) flat_map" where
  "fm_emplace k v m = (if map_of m k = None then fm_update k v m else m)"

definition fm_erase :: "'k \<Rightarrow> ('k, 'v) flat_map \<Rightarrow> ('k, 'v) flat_map" where
  "fm_erase k m = filter (\<lambda>e. fst e \<noteq> k) m"

definition fs_insert :: "'k::linorder \<Rightarrow> 'k flat_set \<Rightarrow> 'k flat_set" where
  "fs_insert k s = (if k \<in> set s then s else insort k s)"

definition fs_erase :: "'k \<Rightarrow> 'k flat_set \<Rightarrow> 'k flat_set" where
  "fs_erase k s = filter (\<lambda>e. e \<noteq> k) s"

lemma map_of_fm_update [simp]: "map_of (fm_update k v m) = (map_of m)(k \<mapsto> v)"
  by (induction k v m rule: fm_update.induct) (auto simp: fun_eq_iff)

lemma map_of_fm_emplace: "map_of (fm_emplace k v m) = (if map_of m k = None then (map_of m)(k \<mapsto> v) else map_of m)"
  by (simp add: fm_emplace_def)

lemma map_of_fm_erase [simp]: "map_of (fm_erase k m) = (map_of m)(k := None)"
  by (induction m) (auto simp: fm_erase_def fun_eq_iff)

lemma set_fm_update_keys: "fst ` set (fm_update k v m) = insert k (fst ` set m)"
  by (induction k v m rule: fm_update.induct) (simp_all add: insert_commute)

lemma set_fs_insert [simp]: "set (fs_insert k s) = insert k (set s)"
  by (auto simp: fs_insert_def set_insort_key)

lemma set_fs_erase [simp]: "set (fs_erase k s) = set s - {k}"
  by (auto simp: fs_erase_def)

definition fm_sorted :: "('k::linorder, 'v) flat_map \<Rightarrow> bool" where
  "fm_sorted m \<longleftrightarrow> sorted_wrt (<) (map fst m)"

lemma fm_sorted_update: "fm_sorted m \<Longrightarrow> fm_sorted (fm_update k v m)"
  using set_fm_update_keys[of k v]
  by (induction k v m rule: fm_update.induct) (force simp: fm_sorted_def)+

lemma fm_sorted_erase: "fm_sorted m \<Longrightarrow> fm_sorted (fm_erase k m)"
  by (induction m) (auto simp: fm_sorted_def fm_erase_def)

lemma fm_sorted_eqI:
  assumes "fm_sorted m" "fm_sorted m'" "map_of m = map_of m'"
  shows "m = m'"
proof -
  have d: "distinct (map fst m)" "distinct (map fst m')"
    using assms(1,2) by (auto simp: fm_sorted_def strict_sorted_iff)
  have "set m = set m'" using map_of_inject_set[OF d] assms(3) by simp
  moreover have "sorted (map fst m)" "sorted (map fst m')"
    using assms(1,2) by (auto simp: fm_sorted_def strict_sorted_iff)
  ultimately show ?thesis using d by (intro map_sorted_distinct_set_unique[where f=fst]) (auto simp: inj_on_def distinct_map)
qed

section \<open>Sixty-four bit signed integers\<close>

definition int64_max :: int where "int64_max = 9223372036854775807"

definition int64_min :: int where "int64_min = -9223372036854775808"

definition in_int64 :: "int \<Rightarrow> bool" where
  "in_int64 x \<longleftrightarrow> int64_min \<le> x \<and> x \<le> int64_max"

lemmas int64_defs = int64_max_def int64_min_def in_int64_def

section \<open>Machine words\<close>

lemma bit_less_exp:
  fixes w :: "'a::len word"
  assumes "unat w < 2 ^ n" "bit w i"
  shows "i < n"
proof (rule ccontr)
  assume "\<not> i < n"
  then have "(2::nat) ^ n \<le> 2 ^ i" by simp
  with assms(1) have "unat w < 2 ^ i" by (rule less_le_trans)
  then have "unat w div 2 ^ i = 0" by simp
  moreover have "bit (unat w) i"
    using assms(2) by (simp add: bit_unsigned_iff)
  ultimately show False by (simp add: bit_iff_odd)
qed

lemma unat_ucast_up:
  assumes "LENGTH('a) \<le> LENGTH('b)"
  shows "unat (ucast (w :: 'a::len word) :: 'b::len word) = unat w"
proof -
  have "unat w < 2 ^ LENGTH('a)" by (rule unsigned_less)
  also have "(2::nat) ^ LENGTH('a) \<le> 2 ^ LENGTH('b)" using assms by simp
  finally show ?thesis by (simp add: unsigned_ucast_eq take_bit_nat_eq_self)
qed

lemma bit_nat_le: "bit (x::nat) i \<Longrightarrow> 2 ^ i \<le> x"
  by (metis bit_iff_odd div_less even_zero not_le)

lemma push_bit_disjoint:
  fixes x :: nat assumes "x < 2 ^ n"
  shows "\<not> bit x i \<or> \<not> bit (push_bit n k) i"
proof -
  have "i < n" if "bit x i"
  proof (rule ccontr)
    assume "\<not> i < n"
    then have "(2::nat) ^ n \<le> 2 ^ i" by simp
    with bit_nat_le[OF that] assms show False by simp
  qed
  then show ?thesis unfolding bit_push_bit_iff by (meson not_le)
qed

lemma or_push_bit: "x < 2 ^ n \<Longrightarrow> x OR push_bit n k = x + push_bit n (k::nat)"
  using disjunctive_add[of x "push_bit n k"] push_bit_disjoint by metis

lemma xor_push_bit:
  assumes "x < 2 ^ n" shows "(x + push_bit n k) XOR push_bit n k = (x::nat)"
proof -
  have "(x OR push_bit n k) XOR push_bit n k = x"
    using push_bit_disjoint[OF assms, of _ k] by (intro bit_eqI) (auto simp: bit_xor_iff bit_or_iff)
  then show ?thesis using or_push_bit[OF assms, of k] by simp
qed

lemma unat_and_mask: "unat (w AND mask n :: 'a::len word) = unat w mod 2 ^ n"
  by (simp add: unsigned_take_bit_eq flip: take_bit_eq_mask) (simp add: take_bit_eq_mod)

lemma div_eq_iff_between: "0 < d \<Longrightarrow> (n::nat) div d = k \<longleftrightarrow> k * d \<le> n \<and> n < k * d + d"
  using dividend_less_div_times[of d n] by (auto simp: div_nat_eqI mult.commute)

lemma mod_eqI: "x = y + k * m \<Longrightarrow> y < m \<Longrightarrow> x mod m = (y::nat)"
  by simp

lemma unat_lead: "unat (push_bit n (ucast (b :: 8 word) :: 32 word)) = unat b * 2 ^ n" if "n \<le> 24"
proof -
  have "unat b < 256" using unsigned_less[of b, where 'a = nat] by simp
  then have "unat b * 2 ^ n < 2 ^ 8 * 2 ^ n" by simp
  also have "\<dots> = 2 ^ (8 + n)" by (simp add: power_add)
  also have "\<dots> \<le> 2 ^ 32" using that by (intro power_increasing) auto
  finally show ?thesis
    by (simp add: unsigned_push_bit_eq unat_ucast_up take_bit_nat_eq_self) (simp add: push_bit_eq_mult take_bit_nat_eq_self)
qed

section \<open>Byte streams\<close>

type_synonym bytes = "8 word list"

text \<open>
  \<open>fc::raw::pack\<close> of an unsigned integer writes the bytes of its memory, least
  significant first; \<open>datastream::read\<close> throws when too few bytes are left.
\<close>

definition le_bytes :: "nat \<Rightarrow> 'a::len word \<Rightarrow> bytes" where
  "le_bytes n w = map (\<lambda>i. ucast (drop_bit (8 * i) w)) [0..<n]"

fun le_word :: "bytes \<Rightarrow> 'a::len word" where
  "le_word [] = 0"
| "le_word (b # bs) = ucast b OR push_bit 8 (le_word bs)"

definition stream_read :: "nat \<Rightarrow> bytes \<Rightarrow> (bytes \<times> bytes) result" where
  "stream_read n s = (if length s < n then Inl Out_Of_Range_Exception
     else Inr (take n s, drop n s))"

lemma length_le_bytes [simp]: "length (le_bytes n w) = n"
  by (simp add: le_bytes_def)

lemma bit_le_word:
  "bit (le_word bs :: 'a::len word) i \<longleftrightarrow>
     i < LENGTH('a) \<and> i div 8 < length bs \<and> bit (bs ! (i div 8)) (i mod 8)"
proof (induction bs arbitrary: i)
  case (Cons b bs)
  show ?case
  proof (cases "i < 8")
    case True
    then show ?thesis
      by (auto simp: bit_or_iff bit_push_bit_iff bit_ucast_iff dest: bit_imp_le_length)
  next
    case False
    then obtain j where j: "i = j + 8" by (metis le_add_diff_inverse2 not_less)
    then have "(j + 8) div 8 = Suc (j div 8)" by simp
    with j Cons.IH[of j] show ?thesis
      by (auto simp: bit_or_iff bit_push_bit_iff bit_ucast_iff dest: bit_imp_le_length)
  qed
qed simp

lemma le_word_le_bytes_ucast:
  assumes "LENGTH('a) \<le> 8 * n"
  shows "le_word (le_bytes n w) = (ucast (w :: 'a::len word) :: 'b::len word)"
proof (rule bit_word_eqI)
  fix i assume "i < LENGTH('b)"
  moreover have "bit w i \<Longrightarrow> i div 8 < n"
    using assms bit_imp_le_length[of w i] by (simp add: less_mult_imp_div_less mult.commute)
  ultimately show "bit (le_word (le_bytes n w) :: 'b word) i = bit (ucast w :: 'b word) i"
    by (auto simp: bit_le_word le_bytes_def bit_ucast_iff bit_drop_bit_eq)
qed

lemma le_word_le_bytes:
  "LENGTH('a) \<le> 8 * n \<Longrightarrow> le_word (le_bytes n w) = (w :: 'a::len word)"
  by (simp add: le_word_le_bytes_ucast)

lemma stream_read_append [simp]:
  "length xs = n \<Longrightarrow> stream_read n (xs @ rest) = Inr (xs, rest)"
  by (auto simp: stream_read_def)

text \<open>
  The interface of a serialisable type: what it packs, it unpacks, whatever
  follows in the stream.
\<close>

locale codec =
  fixes pack :: "'a \<Rightarrow> bytes result"
    and unpack :: "bytes \<Rightarrow> ('a \<times> bytes) result"
    and wf :: "'a \<Rightarrow> bool"
  assumes pack_total: "wf x \<Longrightarrow> is_ok (pack x)"
    and unpack_pack: "wf x \<Longrightarrow> pack x = Inr bs \<Longrightarrow> unpack (bs @ rest) = Inr (x, rest)"
begin

lemma pack_injective:
  assumes "wf x" "wf y" "pack x = Inr bs" "pack y = Inr bs"
  shows "x = y"
  using unpack_pack[OF assms(1,3), of "[]"] unpack_pack[OF assms(2,4), of "[]"] by simp

lemma pack_prefix_free:
  assumes "wf x" "wf y" "pack x = Inr bs" "pack y = Inr (bs @ cs)"
  shows "cs = [] \<and> x = y"
  using unpack_pack[OF assms(1,3), of cs] unpack_pack[OF assms(2,4), of "[]"] by simp

end

end
