(* ===== verification/Asset_Symbol.thy ===== *)
theory Asset_Symbol
  imports Xgt_Prelude
begin

text \<open>
  Asset symbols: \<open>libraries/protocol/include/xgt/protocol/asset_symbol.hpp\<close> and
  the first half of \<open>libraries/protocol/asset.cpp\<close>.  A symbol is one 32-bit
  number.  Numeric asset identifiers (NAIs) carry a Damm check digit, and a
  symbol has a textual form, a numeric form and a binary form.  The lemmas show
  that the optimised checksum is the Damm fold over the decimal digits, that it
  detects single-digit errors and adjacent transpositions, and that the three
  forms convert back and forth without loss for valid symbols.
\<close>

section \<open>Symbols and constants\<close>

record asset_symbol_type =
  asset_num :: "32 word"

datatype asset_symbol_space = Legacy_Space | Xtt_Nai_Space

definition XGT_NAI_SHIFT :: nat where "XGT_NAI_SHIFT = 4 + 1"
definition XTT_MAX_NAI :: "32 word" where "XTT_MAX_NAI = 99999999"
definition XTT_MIN_NAI :: "32 word" where "XTT_MIN_NAI = 1"
definition XGT_PRECISION_XGT :: "8 word" where "XGT_PRECISION_XGT = 8"
definition XGT_NAI_XGT :: "32 word" where "XGT_NAI_XGT = 2"
definition XGT_ASSET_MAX_DECIMALS :: "8 word" where "XGT_ASSET_MAX_DECIMALS = 12"
definition XTT_ASSET_NUM_PRECISION_MASK :: "32 word" where "XTT_ASSET_NUM_PRECISION_MASK = 0xF"
definition XTT_ASSET_NUM_CONTROL_MASK :: "32 word" where "XTT_ASSET_NUM_CONTROL_MASK = 0x10"
definition XTT_ASSET_NUM_VESTING_MASK :: "32 word" where "XTT_ASSET_NUM_VESTING_MASK = 0x20"

definition XGT_ASSET_NUM_XGT :: "32 word" where
  "XGT_ASSET_NUM_XGT = push_bit XGT_NAI_SHIFT (XTT_MAX_NAI + XGT_NAI_XGT) OR ucast XGT_PRECISION_XGT"

definition XGT_SYMBOL_U64 :: "64 word" where
  "XGT_SYMBOL_U64 = of_char (CHR ''X'') OR push_bit 8 (of_char (CHR ''G'')) OR push_bit 16 (of_char (CHR ''T''))"

definition XGT_SYMBOL_SER :: "64 word" where
  "XGT_SYMBOL_SER = 3 OR push_bit 8 XGT_SYMBOL_U64"

lemmas symbol_constants = XGT_NAI_SHIFT_def XTT_MAX_NAI_def XTT_MIN_NAI_def
  XGT_PRECISION_XGT_def XGT_NAI_XGT_def XGT_ASSET_MAX_DECIMALS_def
  XTT_ASSET_NUM_PRECISION_MASK_def XTT_ASSET_NUM_CONTROL_MASK_def
  XTT_ASSET_NUM_VESTING_MASK_def

definition XGT_SYMBOL :: asset_symbol_type where
  "XGT_SYMBOL = \<lparr>asset_num = XGT_ASSET_NUM_XGT\<rparr>"

section \<open>Operations\<close>

definition from_asset_num :: "32 word \<Rightarrow> asset_symbol_type" where
  "from_asset_num n = \<lparr>asset_num = n\<rparr>"

definition get_stripped_precision_xtt_num :: "asset_symbol_type \<Rightarrow> 32 word" where
  "get_stripped_precision_xtt_num s = asset_num s AND NOT XTT_ASSET_NUM_PRECISION_MASK"

definition decimals :: "asset_symbol_type \<Rightarrow> 8 word" where
  "decimals s = ucast (asset_num s AND XTT_ASSET_NUM_PRECISION_MASK)"

definition space :: "asset_symbol_type \<Rightarrow> asset_symbol_space" where
  "space s = (if asset_num s = XGT_ASSET_NUM_XGT then Legacy_Space else Xtt_Nai_Space)"

definition damm_table :: "nat list" where
  "damm_table =
    [ 0, 30, 10, 70, 50, 90, 80, 60, 40, 20,
     70,  0, 90, 20, 10, 50, 40, 80, 60, 30,
     40, 20,  0, 60, 80, 70, 10, 30, 50, 90,
     10, 70, 50,  0, 90, 80, 30, 40, 20, 60,
     60, 10, 20, 30,  0, 40, 50, 90, 70, 80,
     30, 60, 70, 40, 20,  0, 90, 50, 80, 10,
     50, 80, 60, 90, 70, 20,  0, 10, 30, 40,
     80, 90, 40, 50, 30, 60, 20,  0, 10, 70,
     90, 40, 30, 80, 60, 10, 70, 20,  0, 50,
     20, 50, 80, 10, 40, 30, 60, 70, 90, 0]"

definition damm_checksum_8digit :: "32 word \<Rightarrow> 8 word result" where
  "damm_checksum_8digit v =
    (let value = unat v in
     if \<not> value < 100000000 then Inl (Assert_Exception []) else
     let t = (\<lambda>i. damm_table ! i);
         q0 = value div 10; d0 = value mod 10;
         q1 = q0 div 10;    d1 = q0 mod 10;
         q2 = q1 div 10;    d2 = q1 mod 10;
         q3 = q2 div 10;    d3 = q2 mod 10;
         q4 = q3 div 10;    d4 = q3 mod 10;
         q5 = q4 div 10;    d5 = q4 mod 10;
         d6 = q5 mod 10;
         d7 = q5 div 10;
         x = t d7;
         x = t (x + d6);
         x = t (x + d5);
         x = t (x + d4);
         x = t (x + d3);
         x = t (x + d2);
         x = t (x + d1);
         x = t (x + d0)
     in Inr (of_nat (x div 10)))"

definition asset_num_from_nai :: "32 word \<Rightarrow> 8 word \<Rightarrow> 32 word result" where
  "asset_num_from_nai nai decimal_places =
    (let nai_check_digit = nai mod 10;
         nai_data_digits = nai div 10
     in if \<not> (XTT_MIN_NAI \<le> nai_data_digits \<and> nai_data_digits \<le> XTT_MAX_NAI)
        then Inl (Assert_Exception ''NAI out of range'') else
     res_bind (damm_checksum_8digit nai_data_digits) (\<lambda>check.
       if nai_check_digit \<noteq> ucast check then Inl (Assert_Exception ''Invalid check digit'')
       else if nai_data_digits = XGT_NAI_XGT then
         (if decimal_places \<noteq> XGT_PRECISION_XGT then Inl (Assert_Exception [])
          else Inr XGT_ASSET_NUM_XGT)
       else if \<not> decimal_places \<le> XGT_ASSET_MAX_DECIMALS
         then Inl (Assert_Exception ''Invalid decimal_places'')
       else Inr (push_bit XGT_NAI_SHIFT nai_data_digits OR XTT_ASSET_NUM_CONTROL_MASK
                 OR ucast decimal_places)))"

definition from_nai :: "32 word \<Rightarrow> 8 word \<Rightarrow> asset_symbol_type result" where
  "from_nai nai decimal_places =
    res_bind (asset_num_from_nai nai decimal_places) (\<lambda>n. Inr (from_asset_num n))"

definition to_nai :: "asset_symbol_type \<Rightarrow> 32 word result" where
  "to_nai s =
    (let nai_data_digits = (if asset_num s = XGT_ASSET_NUM_XGT then Inr XGT_NAI_XGT
       else if space s \<noteq> Xtt_Nai_Space then Inl (Assert_Exception [])
       else Inr (drop_bit XGT_NAI_SHIFT (asset_num s)))
     in res_bind nai_data_digits (\<lambda>d.
        res_bind (damm_checksum_8digit d) (\<lambda>check. Inr (d * 10 + ucast check))))"

definition get_liquid_symbol :: "asset_symbol_type \<Rightarrow> asset_symbol_type result" where
  "get_liquid_symbol s = (case space s of
      Legacy_Space \<Rightarrow> (if asset_num s = XGT_ASSET_NUM_XGT then Inr XGT_SYMBOL
                       else Inl (Assert_Exception ''Unknown asset symbol''))
    | Xtt_Nai_Space \<Rightarrow> Inr (from_asset_num (asset_num s AND NOT XTT_ASSET_NUM_VESTING_MASK)))"

definition symbol_validate :: "asset_symbol_type \<Rightarrow> unit result" where
  "symbol_validate s =
    (if asset_num s = XGT_ASSET_NUM_XGT then Inr ()
     else let nai_data_digits = drop_bit XGT_NAI_SHIFT (asset_num s);
              nai_1bit = asset_num s AND XTT_ASSET_NUM_CONTROL_MASK;
              nai_decimal_places = asset_num s AND XTT_ASSET_NUM_PRECISION_MASK
     in fc_assert (XTT_MIN_NAI \<le> nai_data_digits \<and> nai_data_digits \<le> XTT_MAX_NAI
          \<and> nai_1bit = XTT_ASSET_NUM_CONTROL_MASK
          \<and> nai_decimal_places \<le> ucast XGT_ASSET_MAX_DECIMALS)
          ''Cannot determine space for asset'')"

text \<open>
  The textual form: two at signs and nine decimal digits.  The conversion of the
  digits back into a number is a call of \<open>boost::lexical_cast\<close>, a parameter.
\<close>

definition digit_char :: "nat \<Rightarrow> char" where
  "digit_char d = char_of (d + 48)"

definition to_nai_string :: "asset_symbol_type \<Rightarrow> string result" where
  "to_nai_string s = res_bind (to_nai s) (\<lambda>nai.
    let x = unat nai;
        b10 = digit_char (x mod 10); x = x div 10;
        b9 = digit_char (x mod 10);  x = x div 10;
        b8 = digit_char (x mod 10);  x = x div 10;
        b7 = digit_char (x mod 10);  x = x div 10;
        b6 = digit_char (x mod 10);  x = x div 10;
        b5 = digit_char (x mod 10);  x = x div 10;
        b4 = digit_char (x mod 10);  x = x div 10;
        b3 = digit_char (x mod 10);  x = x div 10;
        b2 = digit_char x
    in Inr [CHR ''@'', CHR ''@'', b2, b3, b4, b5, b6, b7, b8, b9, b10])"

definition from_nai_string ::
    "(string \<Rightarrow> 32 word option) \<Rightarrow> string option \<Rightarrow> 8 word \<Rightarrow> asset_symbol_type result" where
  "from_nai_string lexical_cast ptr decimal_places = (case ptr of
      None \<Rightarrow> Inl (Assert_Exception ''NAI string cannot be a null'')
    | Some p \<Rightarrow>
      if length p \<noteq> 10 + 2 - 1 then Inl (Assert_Exception ''Incorrect NAI string length'')
      else if \<not> (p ! 0 = CHR ''@'' \<and> p ! 1 = CHR ''@'')
        then Inl (Assert_Exception ''Invalid NAI string prefix'')
      else res_bind (res_of_option Bad_Cast_Exception (lexical_cast (drop 2 p)))
        (\<lambda>nai. from_nai nai decimal_places))"

text \<open>The binary form of \<open>fc::raw\<close>.\<close>

definition pack_symbol :: "asset_symbol_type \<Rightarrow> bytes result" where
  "pack_symbol symb = (case space symb of
      Legacy_Space \<Rightarrow>
        if asset_num symb = XGT_ASSET_NUM_XGT then Inr (le_bytes 8 XGT_SYMBOL_SER)
        else Inl (Assert_Exception ''Cannot serialize unknown asset symbol'')
    | Xtt_Nai_Space \<Rightarrow> Inr (le_bytes 4 (asset_num symb)))"

definition unpack_symbol :: "bytes \<Rightarrow> (asset_symbol_type \<times> bytes) result" where
  "unpack_symbol s = res_bind (stream_read 4 s) (\<lambda>(lo, s).
    let ser = (le_word lo :: 64 word) in
    res_bind
      (if ser = XGT_SYMBOL_SER AND 0xFFFFFFFF then
         res_bind (stream_read 4 s) (\<lambda>(hi, s).
           if le_word (lo @ hi) \<noteq> XGT_SYMBOL_SER then Inl (Assert_Exception ''invalid asset bits'')
           else Inr (from_asset_num XGT_ASSET_NUM_XGT, s))
       else Inr (from_asset_num (ucast ser), s))
      (\<lambda>(symb, s). res_bind (symbol_validate symb) (\<lambda>_. Inr (symb, s))))"

section \<open>Reference definitions\<close>

text \<open>
  The Damm algorithm as a fold over the decimal digits, the layout of a valid NAI
  symbol, and what the code relies on of \<open>boost::lexical_cast\<close>: nine decimal
  digits convert to the number they denote.  \<open>parse_u32\<close> is one function with
  that behaviour.
\<close>

definition damm_step :: "nat \<Rightarrow> nat \<Rightarrow> nat" where
  "damm_step c d = damm_table ! (10 * c + d) div 10"

definition decimal_digits :: "nat list" where
  "decimal_digits = [0, Suc 0, 2, 3, 4, 5, 6, 7, 8, 9]"

definition damm_fold :: "nat \<Rightarrow> nat list \<Rightarrow> nat" where
  "damm_fold c ds = foldl damm_step c ds"

definition digits8 :: "nat \<Rightarrow> nat list" where
  "digits8 v = map (\<lambda>i. v div 10 ^ i mod 10) [7, 6, 5, 4, 3, 2, 1, 0]"

definition digits9 :: "nat \<Rightarrow> nat list" where
  "digits9 n = digits8 (n div 10) @ [n mod 10]"

definition valid_nai_num :: "32 word \<Rightarrow> bool" where
  "valid_nai_num n \<longleftrightarrow> 1 \<le> unat (drop_bit 5 n) \<and> unat (drop_bit 5 n) \<le> 99999999
     \<and> n AND 0x10 = 0x10 \<and> unat (n AND 0xF) \<le> 12"

definition dec_value :: "nat list \<Rightarrow> nat" where
  "dec_value ds = foldl (\<lambda>a d. 10 * a + d) 0 ds"

definition lexical_cast_decimal :: "(string \<Rightarrow> 32 word option) \<Rightarrow> bool" where
  "lexical_cast_decimal lc \<longleftrightarrow> (\<forall>ds. length ds = 9 \<longrightarrow> (\<forall>d\<in>set ds. d < 10) \<longrightarrow>
     lc (map digit_char ds) = Some (of_nat (dec_value ds)))"

definition parse_u32 :: "string \<Rightarrow> 32 word option" where
  "parse_u32 str = (if str \<noteq> [] \<and> list_all (\<lambda>c. 48 \<le> (of_char c :: nat) \<and> (of_char c :: nat) < 58) str
     then Some (of_nat (dec_value (map (\<lambda>c. of_char c - 48) str))) else None)"

section \<open>The checksum\<close>

lemma decimal_digits_iff: "d \<in> set decimal_digits \<longleftrightarrow> d < 10"
  by (auto simp: decimal_digits_def)

lemma list_all_digits: "list_all P decimal_digits \<longleftrightarrow> (\<forall>d. d < 10 \<longrightarrow> P d)"
  by (auto simp: list_all_iff decimal_digits_iff)

lemma damm_steps [simp]:
  "damm_step 0 0 = 0" "damm_step 0 (Suc 0) = 3" "damm_step 0 2 = Suc 0" "damm_step 0 3 = 7" "damm_step 0 4 = 5" "damm_step 0 5 = 9" "damm_step 0 6 = 8" "damm_step 0 7 = 6" "damm_step 0 8 = 4" "damm_step 0 9 = 2"
  "damm_step (Suc 0) 0 = 7" "damm_step (Suc 0) (Suc 0) = 0" "damm_step (Suc 0) 2 = 9" "damm_step (Suc 0) 3 = 2" "damm_step (Suc 0) 4 = Suc 0" "damm_step (Suc 0) 5 = 5" "damm_step (Suc 0) 6 = 4" "damm_step (Suc 0) 7 = 8" "damm_step (Suc 0) 8 = 6" "damm_step (Suc 0) 9 = 3"
  "damm_step 2 0 = 4" "damm_step 2 (Suc 0) = 2" "damm_step 2 2 = 0" "damm_step 2 3 = 6" "damm_step 2 4 = 8" "damm_step 2 5 = 7" "damm_step 2 6 = Suc 0" "damm_step 2 7 = 3" "damm_step 2 8 = 5" "damm_step 2 9 = 9"
  "damm_step 3 0 = Suc 0" "damm_step 3 (Suc 0) = 7" "damm_step 3 2 = 5" "damm_step 3 3 = 0" "damm_step 3 4 = 9" "damm_step 3 5 = 8" "damm_step 3 6 = 3" "damm_step 3 7 = 4" "damm_step 3 8 = 2" "damm_step 3 9 = 6"
  "damm_step 4 0 = 6" "damm_step 4 (Suc 0) = Suc 0" "damm_step 4 2 = 2" "damm_step 4 3 = 3" "damm_step 4 4 = 0" "damm_step 4 5 = 4" "damm_step 4 6 = 5" "damm_step 4 7 = 9" "damm_step 4 8 = 7" "damm_step 4 9 = 8"
  "damm_step 5 0 = 3" "damm_step 5 (Suc 0) = 6" "damm_step 5 2 = 7" "damm_step 5 3 = 4" "damm_step 5 4 = 2" "damm_step 5 5 = 0" "damm_step 5 6 = 9" "damm_step 5 7 = 5" "damm_step 5 8 = 8" "damm_step 5 9 = Suc 0"
  "damm_step 6 0 = 5" "damm_step 6 (Suc 0) = 8" "damm_step 6 2 = 6" "damm_step 6 3 = 9" "damm_step 6 4 = 7" "damm_step 6 5 = 2" "damm_step 6 6 = 0" "damm_step 6 7 = Suc 0" "damm_step 6 8 = 3" "damm_step 6 9 = 4"
  "damm_step 7 0 = 8" "damm_step 7 (Suc 0) = 9" "damm_step 7 2 = 4" "damm_step 7 3 = 5" "damm_step 7 4 = 3" "damm_step 7 5 = 6" "damm_step 7 6 = 2" "damm_step 7 7 = 0" "damm_step 7 8 = Suc 0" "damm_step 7 9 = 7"
  "damm_step 8 0 = 9" "damm_step 8 (Suc 0) = 4" "damm_step 8 2 = 3" "damm_step 8 3 = 8" "damm_step 8 4 = 6" "damm_step 8 5 = Suc 0" "damm_step 8 6 = 7" "damm_step 8 7 = 2" "damm_step 8 8 = 0" "damm_step 8 9 = 5"
  "damm_step 9 0 = 2" "damm_step 9 (Suc 0) = 5" "damm_step 9 2 = 8" "damm_step 9 3 = Suc 0" "damm_step 9 4 = 4" "damm_step 9 5 = 3" "damm_step 9 6 = 6" "damm_step 9 7 = 7" "damm_step 9 8 = 9" "damm_step 9 9 = 0"
  by (simp_all add: damm_step_def damm_table_def)

lemma damm_table_entries:
  "list_all (\<lambda>c. list_all (\<lambda>d. damm_table ! (10 * c + d) = 10 * damm_step c d \<and> damm_step c d < 10)
     decimal_digits) decimal_digits"
  by (simp add: decimal_digits_def) (simp add: damm_table_def)

lemma damm_step_latin:
  "list_all (\<lambda>c. list_all (\<lambda>d. list_all (\<lambda>e.
     (damm_step c d = damm_step c e \<longrightarrow> d = e) \<and> (damm_step d c = damm_step e c \<longrightarrow> d = e))
     decimal_digits) decimal_digits) decimal_digits"
  by (simp add: decimal_digits_def)

lemma damm_step_antisym:
  "list_all (\<lambda>c. list_all (\<lambda>d. list_all (\<lambda>e.
     damm_step (damm_step c d) e = damm_step (damm_step c e) d \<longrightarrow> d = e)
     decimal_digits) decimal_digits) decimal_digits"
  by (simp add: decimal_digits_def)

lemma damm_diag: "list_all (\<lambda>c. list_all (\<lambda>d. damm_step c d = 0 \<longleftrightarrow> c = d) decimal_digits) decimal_digits"
  by (simp add: decimal_digits_def)

lemma damm_step_less [simp]: "c < 10 \<Longrightarrow> d < 10 \<Longrightarrow> damm_step c d < 10"
  using damm_table_entries[unfolded list_all_digits, rule_format, of c d] by simp

lemma damm_entry: "c < 10 \<Longrightarrow> d < 10 \<Longrightarrow> damm_table ! (10 * c + d) = 10 * damm_step c d"
  using damm_table_entries[unfolded list_all_digits, rule_format, of c d] by simp

lemma damm_step_inj_digit: "damm_step c d = damm_step c e \<Longrightarrow> c < 10 \<Longrightarrow> d < 10 \<Longrightarrow> e < 10 \<Longrightarrow> d = e"
  using damm_step_latin[unfolded list_all_digits, rule_format, of c d e] by simp

lemma damm_step_inj_interim: "damm_step d c = damm_step e c \<Longrightarrow> c < 10 \<Longrightarrow> d < 10 \<Longrightarrow> e < 10 \<Longrightarrow> d = e"
  using damm_step_latin[unfolded list_all_digits, rule_format, of c d e] by simp

lemma damm_step_swap:
  "damm_step (damm_step c d) e = damm_step (damm_step c e) d \<Longrightarrow> c < 10 \<Longrightarrow> d < 10 \<Longrightarrow> e < 10 \<Longrightarrow> d = e"
  using damm_step_antisym[unfolded list_all_digits, rule_format, of c d e] by simp

lemma damm_step_zero: "c < 10 \<Longrightarrow> d < 10 \<Longrightarrow> damm_step c d = 0 \<longleftrightarrow> c = d"
  using damm_diag[unfolded list_all_digits, rule_format, of c d] by simp

lemma damm_fold_simps [simp]:
  "damm_fold c [] = c" "damm_fold c (d # ds) = damm_fold (damm_step c d) ds"
  "damm_fold c (ds @ es) = damm_fold (damm_fold c ds) es"
  by (simp_all add: damm_fold_def)

lemma damm_fold_less [simp]: "c < 10 \<Longrightarrow> \<forall>d\<in>set ds. d < 10 \<Longrightarrow> damm_fold c ds < 10"
  by (induction ds arbitrary: c) auto

lemma damm_fold_inj:
  "damm_fold c ds = damm_fold c' ds \<Longrightarrow> c < 10 \<Longrightarrow> c' < 10 \<Longrightarrow> \<forall>d\<in>set ds. d < 10 \<Longrightarrow> c = c'"
proof (induction ds arbitrary: c c')
  case (Cons d ds)
  then have "damm_step c d = damm_step c' d" by simp
  with Cons.prems show ?case by (auto dest: damm_step_inj_interim)
qed simp

lemma damm_fold_single_error:
  assumes "damm_fold 0 (pre @ x # post) = damm_fold 0 (pre @ y # post)"
    and "\<forall>d\<in>set (pre @ x # y # post). d < 10"
  shows "x = y"
  using assms damm_fold_inj[of "damm_step (damm_fold 0 pre) x" post "damm_step (damm_fold 0 pre) y"]
    damm_step_inj_digit[of "damm_fold 0 pre" x y] by simp

lemma damm_fold_transposition:
  assumes "damm_fold 0 (pre @ x # y # post) = damm_fold 0 (pre @ y # x # post)"
    and "\<forall>d\<in>set (pre @ x # y # post). d < 10"
  shows "x = y"
  using assms damm_fold_inj[of "damm_step (damm_step (damm_fold 0 pre) x) y" post
      "damm_step (damm_step (damm_fold 0 pre) y) x"]
    damm_step_swap[of "damm_fold 0 pre" x y] by simp

lemma digits8_less: "d \<in> set (digits8 v) \<Longrightarrow> d < 10"
  by (auto simp: digits8_def)

lemma digits9_less: "d \<in> set (digits9 v) \<Longrightarrow> d < 10"
  by (auto simp: digits9_def digits8_less)

lemma damm_checksum_fold:
  assumes "unat v < 100000000"
  shows "damm_checksum_8digit v = Inr (of_nat (damm_fold 0 (digits8 (unat v))))"
proof -
  define n where "n = unat v"
  define d where "d i = n div 10 ^ i mod 10" for i
  have lt: "d i < 10" for i by (simp add: d_def)
  have q: "n mod 10 = d 0" "n div 10 mod 10 = d 1" "n div 10 div 10 mod 10 = d 2"
    "n div 10 div 10 div 10 mod 10 = d 3" "n div 10 div 10 div 10 div 10 mod 10 = d 4"
    "n div 10 div 10 div 10 div 10 div 10 mod 10 = d 5"
    "n div 10 div 10 div 10 div 10 div 10 div 10 mod 10 = d 6"
    by (simp_all add: d_def flip: div_mult2_eq)
  have q7: "n div 10 div 10 div 10 div 10 div 10 div 10 div 10 = d 7"
    using assms by (simp add: d_def n_def flip: div_mult2_eq)
  have t0: "damm_table ! d 7 = 10 * damm_step 0 (d 7)"
    using damm_entry[of 0 "d 7"] lt by simp
  have "damm_checksum_8digit v = Inr (of_nat (damm_fold 0 (map d [7, 6, 5, 4, 3, 2, 1, 0])))"
    using assms unfolding damm_checksum_8digit_def Let_def n_def[symmetric] q q7 t0
    by (simp add: damm_entry lt)
  then show ?thesis by (simp add: digits8_def n_def d_def)
qed

lemma damm_checksum_error:
  "\<not> unat v < 100000000 \<Longrightarrow> damm_checksum_8digit v = Inl (Assert_Exception [])"
  by (simp add: damm_checksum_8digit_def)

lemma bit_small_masks:
  "bit (0xF :: int) i \<longleftrightarrow> i < 4" "bit (0x10 :: int) i \<longleftrightarrow> i = 4"
proof -
  have "(0xF :: int) = mask 4" by (simp add: mask_eq_exp_minus_1)
  then have "bit (0xF :: int) i = bit (mask 4 :: int) i" by (rule arg_cong)
  also have "\<dots> \<longleftrightarrow> i < 4" by (auto simp: bit_mask_iff)
  finally show "bit (0xF :: int) i \<longleftrightarrow> i < 4" .
  have "(0x10 :: int) = 2 ^ 4" by simp
  then have "bit (0x10 :: int) i = bit (2 ^ 4 :: int) i" by (rule arg_cong)
  also have "\<dots> \<longleftrightarrow> i = 4" unfolding bit_exp_iff by auto
  finally show "bit (0x10 :: int) i \<longleftrightarrow> i = 4" .
qed

lemma nai_layout_data:
  assumes "unat d < 2 ^ 27" "unat p < 16"
  shows "drop_bit 5 (push_bit 5 d OR 0x10 OR p) = (d :: 32 word)"
proof (rule bit_word_eqI)
  fix i assume "i < LENGTH(32)"
  have "bit p (5 + i) = False" using bit_less_exp[of p 4 "5 + i"] assms(2) by auto
  moreover have "bit d i \<Longrightarrow> i < 27" using bit_less_exp[of d 27 i] assms(1) by simp
  ultimately show "bit (drop_bit 5 (push_bit 5 d OR 0x10 OR p)) i = bit d i"
    by (auto simp: bit_drop_bit_eq bit_or_iff bit_push_bit_iff bit_small_masks)
qed

lemma nai_layout_control:
  assumes "unat p < 16"
  shows "(push_bit 5 d OR 0x10 OR p) AND 0x10 = (0x10 :: 32 word)"
proof (rule bit_word_eqI)
  fix i assume "i < LENGTH(32)"
  then show "bit ((push_bit 5 d OR 0x10 OR p) AND 0x10) i = bit (0x10 :: 32 word) i"
    by (auto simp: bit_and_iff bit_or_iff bit_small_masks)
qed

lemma nai_layout_precision:
  assumes "unat p < 16"
  shows "(push_bit 5 d OR 0x10 OR p) AND 0xF = (p :: 32 word)"
proof (rule bit_word_eqI)
  fix i assume "i < LENGTH(32)"
  have "bit p i \<Longrightarrow> i < 4" using bit_less_exp[of p 4 i] assms by simp
  then show "bit ((push_bit 5 d OR 0x10 OR p) AND 0xF) i = bit p i"
    by (auto simp: bit_and_iff bit_or_iff bit_push_bit_iff bit_small_masks)
qed

lemma nai_layout_complete:
  assumes "w AND 0x10 = (0x10 :: 32 word)"
  shows "push_bit 5 (drop_bit 5 w) OR 0x10 OR (w AND 0xF) = w"
proof (rule bit_word_eqI)
  fix i assume "i < LENGTH(32)"
  have "bit (w AND 0x10) 4" using assms by (simp add: bit_small_masks)
  then have "bit w 4" by (simp add: bit_and_iff)
  then show "bit (push_bit 5 (drop_bit 5 w) OR 0x10 OR (w AND 0xF)) i = bit w i"
    using \<open>i < LENGTH(32)\<close> by (cases "i < 4"; cases "i = 4")
      (auto simp: bit_and_iff bit_or_iff bit_push_bit_iff bit_drop_bit_eq bit_small_masks)
qed

lemma xgt_asset_num [simp]: "XGT_ASSET_NUM_XGT = 0xBEBC2028"
  unfolding XGT_ASSET_NUM_XGT_def symbol_constants
  apply simp
  done

lemma symbol_eta [simp]: "\<lparr>asset_num = asset_num s\<rparr> = s"
  by (cases s) simp

lemma xgt_symbol_ser [simp]: "XGT_SYMBOL_SER = 0x54475803"
  by (simp add: XGT_SYMBOL_SER_def XGT_SYMBOL_U64_def of_char_def)

lemma symbol_validate_iff:
  "symbol_validate s = Inr () \<longleftrightarrow> asset_num s = XGT_ASSET_NUM_XGT \<or> valid_nai_num (asset_num s)"
  by (auto simp: symbol_validate_def symbol_constants valid_nai_num_def fc_assert_def Let_def
      word_le_nat_alt)

lemma valid_nai_not_xgt: "valid_nai_num n \<Longrightarrow> n \<noteq> XGT_ASSET_NUM_XGT"
  by (auto simp: valid_nai_num_def)

lemma pack_symbol_xgt: "pack_symbol XGT_SYMBOL = Inr (le_bytes 8 XGT_SYMBOL_SER)"
  by (simp add: pack_symbol_def XGT_SYMBOL_def space_def)

lemma ser_bytes: "le_bytes 8 XGT_SYMBOL_SER = [3, 0x58, 0x47, 0x54] @ [0, 0, 0, 0]"
  by (simp add: le_bytes_def upt_rec)

lemma unpack_symbol_xgt: "unpack_symbol (le_bytes 8 XGT_SYMBOL_SER @ rest) = Inr (XGT_SYMBOL, rest)"
  unfolding ser_bytes append_assoc
  by (simp add: unpack_symbol_def XGT_SYMBOL_def from_asset_num_def symbol_validate_def
      stream_read_def)

lemma unpack_symbol_nai:
  assumes "valid_nai_num (asset_num s)"
  shows "unpack_symbol (le_bytes 4 (asset_num s) @ rest) = Inr (s, rest)"
proof -
  let ?n = "asset_num s"
  have w: "(le_word (le_bytes 4 ?n) :: 64 word) = ucast ?n"
    by (simp add: le_word_le_bytes_ucast)
  have "bit (?n AND 0x10) 4" using assms by (simp add: valid_nai_num_def bit_small_masks)
  then have b: "bit (ucast ?n :: 64 word) 4" by (simp add: bit_and_iff bit_ucast_iff)
  have "ucast ?n \<noteq> (0x54475803 :: 64 word)"
  proof
    assume "ucast ?n = (0x54475803 :: 64 word)"
    with b show False by simp
  qed
  moreover have "ucast (ucast ?n :: 64 word) = ?n"
    by (rule bit_word_eqI) (simp add: bit_ucast_iff)
  ultimately show ?thesis using assms
    using symbol_validate_iff[of s]
    by (simp add: Let_def unpack_symbol_def w from_asset_num_def)
qed

lemma pack_symbol_valid:
  assumes "symbol_validate s = Inr ()"
  shows "(s = XGT_SYMBOL \<and> pack_symbol s = Inr (le_bytes 8 XGT_SYMBOL_SER)) \<or>
    (valid_nai_num (asset_num s) \<and> pack_symbol s = Inr (le_bytes 4 (asset_num s)))"
proof (cases "asset_num s = XGT_ASSET_NUM_XGT")
  case True
  then have "s = XGT_SYMBOL" by (simp add: XGT_SYMBOL_def)
  then show ?thesis by (simp add: pack_symbol_xgt)
next
  case False
  with assms show ?thesis by (simp add: symbol_validate_iff pack_symbol_def space_def)
qed

interpretation sym_codec: codec pack_symbol unpack_symbol "\<lambda>s. symbol_validate s = Inr ()"
proof unfold_locales
  show "symbol_validate s = Inr () \<Longrightarrow> is_ok (pack_symbol s)" for s
    using pack_symbol_valid[of s] by auto
  show "symbol_validate s = Inr () \<Longrightarrow> pack_symbol s = Inr bs \<Longrightarrow> unpack_symbol (bs @ rest) = Inr (s, rest)"
    for s bs rest
    using pack_symbol_valid[of s] unpack_symbol_xgt[of rest] unpack_symbol_nai[of s rest] by auto
qed

lemma digits8_fold_less [simp]: "damm_fold 0 (digits8 v) < 10"
  by (simp add: digits8_less)

lemma damm_checksum_value:
  assumes "unat v < 100000000"
  shows "\<exists>c. damm_checksum_8digit v = Inr c \<and> unat c = damm_fold 0 (digits8 (unat v))"
proof -
  have "damm_fold 0 (digits8 (unat v)) < 2 ^ LENGTH(8)"
    using digits8_fold_less[of "unat v"] by (simp del: digits8_fold_less)
  then show ?thesis using damm_checksum_fold[OF assms] by (simp add: unat_of_nat)
qed

lemma asset_num_from_nai_iff:
  "asset_num_from_nai nai dp = Inr n \<longleftrightarrow>
     1 \<le> unat nai div 10 \<and> unat nai div 10 \<le> 99999999
     \<and> unat nai mod 10 = damm_fold 0 (digits8 (unat nai div 10))
     \<and> (if unat nai div 10 = 2 then dp = 8 \<and> n = XGT_ASSET_NUM_XGT
        else unat dp \<le> 12 \<and> n = push_bit 5 (nai div 10) OR 0x10 OR ucast dp)"
proof (cases "1 \<le> unat nai div 10 \<and> unat nai div 10 \<le> 99999999")
  case True
  have ud: "unat (nai div 10) = unat nai div 10" by (simp add: unat_div)
  obtain c where c: "damm_checksum_8digit (nai div 10) = Inr c"
      "unat c = damm_fold 0 (digits8 (unat nai div 10))"
    using damm_checksum_value[of "nai div 10"] True ud by auto
  have "unat (ucast c :: 32 word) = unat c"
    by (simp add: unat_ucast_up)
  then have eq: "nai mod 10 = ucast c \<longleftrightarrow> unat nai mod 10 = unat c"
    by (simp add: word_unat_eq_iff unat_mod)
  have two: "nai div 10 = 2 \<longleftrightarrow> unat nai div 10 = 2"
    by (simp add: word_unat_eq_iff unat_div)
  show ?thesis using True eq two c
    by (auto simp: asset_num_from_nai_def Let_def symbol_constants word_le_nat_alt unat_div)
next
  case False
  then show ?thesis
    by (auto simp: asset_num_from_nai_def Let_def symbol_constants word_le_nat_alt unat_div)
qed
lemma from_nai_iff:
  "from_nai nai dp = Inr s \<longleftrightarrow> asset_num_from_nai nai dp = Inr (asset_num s)"
  by (cases s) (auto simp: from_nai_def from_asset_num_def result_simps)

lemma to_nai_num:
  assumes "unat d < 100000000"
  shows "\<exists>nai. res_bind (damm_checksum_8digit d) (\<lambda>check. Inr (d * 10 + ucast check)) = Inr nai
     \<and> unat nai = unat d * 10 + damm_fold 0 (digits8 (unat d))"
proof -
  obtain c where c: "damm_checksum_8digit d = Inr c" "unat c = damm_fold 0 (digits8 (unat d))"
    using damm_checksum_value[OF assms] by auto
  have "unat c < 10" using c digits8_fold_less by metis
  then have "unat (d * 10 + ucast c) = unat d * 10 + unat c"
    using assms by (simp add: unat_word_ariths unat_ucast_up)
  with c show ?thesis by simp
qed

lemma to_nai_valid_num:
  assumes "valid_nai_num (asset_num s)"
  shows "\<exists>nai. to_nai s = Inr nai \<and> unat nai div 10 = unat (drop_bit 5 (asset_num s))
    \<and> unat nai mod 10 = damm_fold 0 (digits8 (unat (drop_bit 5 (asset_num s))))"
proof -
  let ?d = "drop_bit 5 (asset_num s)"
  obtain nai where nai: "res_bind (damm_checksum_8digit ?d) (\<lambda>check. Inr (?d * 10 + ucast check)) = Inr nai"
      "unat nai = unat ?d * 10 + damm_fold 0 (digits8 (unat ?d))"
    using to_nai_num[of ?d] assms by (auto simp: valid_nai_num_def)
  moreover have "to_nai s = Inr nai"
    using nai valid_nai_not_xgt[OF assms] by (simp add: to_nai_def space_def symbol_constants)
  ultimately show ?thesis by simp
qed

lemma to_nai_xgt: "to_nai XGT_SYMBOL = Inr 21"
proof -
  have "damm_checksum_8digit 2 = Inr 1" by (simp add: damm_checksum_fold digits8_def)
  then show ?thesis by (simp add: to_nai_def XGT_SYMBOL_def symbol_constants)
qed

lemma decimals_xgt: "decimals XGT_SYMBOL = 8"
  by (simp add: decimals_def XGT_SYMBOL_def symbol_constants)

lemma decimals_value: "unat (decimals s) = unat (asset_num s AND 0xF)"
proof -
  have "unat (asset_num s AND 0xF) < 16"
    using word_and_le1[of "asset_num s" "0xF"] by (simp add: word_le_nat_alt)
  then show ?thesis by (simp add: decimals_def symbol_constants unsigned_ucast_eq take_bit_nat_eq_self)
qed

lemma decimals_ucast: "ucast (decimals s) = asset_num s AND 0xF"
  by (simp add: word_unat_eq_iff unat_ucast_up decimals_value)

lemma valid_symbol_to_nai:
  assumes "symbol_validate s = Inr ()"
    and "s = XGT_SYMBOL \<or> drop_bit XGT_NAI_SHIFT (asset_num s) \<noteq> XGT_NAI_XGT"
  shows "\<exists>nai. to_nai s = Inr nai \<and> from_nai nai (decimals s) = Inr s"
proof (cases "asset_num s = XGT_ASSET_NUM_XGT")
  case True
  then have s: "s = XGT_SYMBOL" by (cases s) (simp add: XGT_SYMBOL_def)
  have "from_nai 21 8 = Inr XGT_SYMBOL"
    by (simp add: from_nai_iff asset_num_from_nai_iff digits8_def) (simp add: XGT_SYMBOL_def)
  then show ?thesis by (simp add: s to_nai_xgt decimals_xgt)
next
  case False
  with assms(1) have v: "valid_nai_num (asset_num s)" by (simp add: symbol_validate_iff)
  let ?d = "drop_bit 5 (asset_num s)"
  obtain nai where nai: "to_nai s = Inr nai" "unat nai div 10 = unat ?d"
      "unat nai mod 10 = damm_fold 0 (digits8 (unat ?d))"
    using to_nai_valid_num[OF v] by auto
  have "nai div 10 = ?d" using nai by (simp add: word_unat_eq_iff unat_div)
  moreover have "unat ?d \<noteq> 2"
    using assms(2) False by (auto simp: XGT_SYMBOL_def symbol_constants word_unat_eq_iff)
  moreover have "push_bit 5 ?d OR 0x10 OR ucast (decimals s) = asset_num s"
    using v nai_layout_complete[of "asset_num s"] by (simp add: decimals_ucast valid_nai_num_def)
  ultimately have "from_nai nai (decimals s) = Inr s"
    using nai v by (simp add: from_nai_iff asset_num_from_nai_iff valid_nai_num_def decimals_value)
  with nai show ?thesis by blast
qed

lemma from_nai_damm:
  assumes "from_nai nai dp = Inr s"
  shows "damm_fold 0 (digits9 (unat nai)) = 0"
proof -
  have "damm_fold 0 (digits8 (unat nai div 10)) = unat nai mod 10"
    using assms by (simp add: from_nai_iff asset_num_from_nai_iff)
  then show ?thesis by (simp add: digits9_def damm_step_zero)
qed

lemma digit_char_value: "d < 10 \<Longrightarrow> of_char (digit_char d) = d + 48"
  by (simp add: digit_char_def)

lemma parse_u32_decimal: "lexical_cast_decimal parse_u32"
proof -
  have "parse_u32 (map digit_char ds) = Some (of_nat (dec_value ds))"
    if "length ds = 9" "\<forall>d\<in>set ds. d < 10" for ds
  proof -
    have "map (\<lambda>c. of_char c - 48) (map digit_char ds) = ds"
      using that(2) by (induction ds) (auto simp: digit_char_value)
    moreover have "ds \<noteq> []" using that(1) by auto
    ultimately show ?thesis using that by (auto simp: parse_u32_def list_all_iff digit_char_value)
  qed
  then show ?thesis by (simp add: lexical_cast_decimal_def)
qed

lemma dec_value_digits9:
  assumes "n < 1000000000"
  shows "dec_value (digits9 n) = n"
proof -
  define q where "q i = n div 10 ^ i" for i
  define r where "r i = q i mod 10" for i
  have step: "q i = 10 * q (Suc i) + r i" for i
  proof -
    have "q (Suc i) = q i div 10"
      by (simp add: q_def div_mult2_eq[symmetric] mult.commute)
    then show ?thesis by (simp add: r_def)
  qed
  have z: "q 9 = 0" "q 0 = n" using assms by (simp_all add: q_def)
  have "digits9 n = map r [8, 7, 6, 5, 4, 3, 2, 1, 0]"
    by (simp add: digits9_def digits8_def q_def r_def flip: div_mult2_eq)
  then have v: "dec_value (digits9 n) = 10 * (10 * (10 * (10 * (10 * (10 * (10 * (10 * r 8
      + r 7) + r 6) + r 5) + r 4) + r 3) + r 2) + r 1) + r 0"
    by (simp add: dec_value_def)
  have "q 8 = 10 * q 9 + r 8" "q 7 = 10 * q 8 + r 7" "q 6 = 10 * q 7 + r 6"
    "q 5 = 10 * q 6 + r 5" "q 4 = 10 * q 5 + r 4" "q 3 = 10 * q 4 + r 3"
    "q 2 = 10 * q 3 + r 2" "q 1 = 10 * q 2 + r 1" "q 0 = 10 * q 1 + r 0"
    using step[of 8] step[of 7] step[of 6] step[of 5] step[of 4] step[of 3] step[of 2] step[of 1]
      step[of 0] by (simp_all flip: numeral_2_eq_2)
  with v z show ?thesis by simp
qed

lemma length_digits9 [simp]: "length (digits9 n) = 9"
  by (simp add: digits9_def digits8_def)

lemma to_nai_string_digits:
  assumes "to_nai s = Inr nai" and "unat nai < 1000000000"
  shows "to_nai_string s = Inr (''@@'' @ map digit_char (digits9 (unat nai)))"
  using assms by (simp add: to_nai_string_def Let_def digits9_def digits8_def flip: div_mult2_eq)

lemma to_nai_bound:
  assumes "to_nai s = Inr nai"
  shows "unat nai < 1000000000"
proof -
  obtain d where d: "res_bind (damm_checksum_8digit d) (\<lambda>check. Inr (d * 10 + ucast check)) = Inr nai"
    using assms by (auto simp: to_nai_def Let_def result_simps split: if_splits)
  then have "unat d < 100000000" using damm_checksum_error[of d]
    by (cases "unat d < 100000000") (auto simp: result_simps)
  moreover from this obtain m where "res_bind (damm_checksum_8digit d) (\<lambda>check. Inr (d * 10 + ucast check)) = Inr m"
      "unat m = unat d * 10 + damm_fold 0 (digits8 (unat d))"
    using to_nai_num by blast
  ultimately show ?thesis using d digits8_fold_less[of "unat d"] by (simp del: digits8_fold_less)
qed

section \<open>Properties\<close>

text \<open>C1: packing a valid symbol and unpacking the bytes, whatever follows them in
  the stream, gives back the symbol and leaves the rest of the stream.  The two
  encodings, eight bytes for XGT and four for a NAI, are told apart by the control bit.\<close>

theorem symbol_pack_round_trip:
  assumes "symbol_validate s = Inr ()"
  shows "\<exists>bs. pack_symbol s = Inr bs \<and> unpack_symbol (bs @ rest) = Inr (s, rest)"
  using sym_codec.pack_total[OF assms] sym_codec.unpack_pack[OF assms] by (auto simp: result_simps)

theorem symbol_pack_round_trip_witness:
  "symbol_validate \<lparr>asset_num = 320000019\<rparr> = Inr () \<and>
   (\<exists>bs. pack_symbol \<lparr>asset_num = 320000019\<rparr> = Inr bs
      \<and> unpack_symbol (bs @ [7]) = Inr (\<lparr>asset_num = 320000019\<rparr>, [7]))"
proof -
  have v: "symbol_validate \<lparr>asset_num = 320000019\<rparr> = Inr ()"
    by (simp add: symbol_validate_def symbol_constants fc_assert_def)
  show ?thesis using symbol_pack_round_trip[OF v, of "[7]"] v by blast
qed

text \<open>C3: a NAI and a precision that the code accepts give a valid symbol that
  prints back as the same NAI with the same precision.\<close>

theorem from_nai_to_nai:
  assumes "from_nai nai dp = Inr s"
  shows "to_nai s = Inr nai \<and> decimals s = dp \<and> symbol_validate s = Inr ()"
proof -
  let ?d = "unat nai div 10"
  have d: "1 \<le> ?d" "?d \<le> 99999999" "unat nai mod 10 = damm_fold 0 (digits8 ?d)"
    and n: "if ?d = 2 then dp = 8 \<and> asset_num s = XGT_ASSET_NUM_XGT
      else unat dp \<le> 12 \<and> asset_num s = push_bit 5 (nai div 10) OR 0x10 OR ucast dp"
    using assms by (auto simp: from_nai_iff asset_num_from_nai_iff)
  show ?thesis
  proof (cases "?d = 2")
    case True
    with n have "s = XGT_SYMBOL" by (cases s) (simp add: XGT_SYMBOL_def)
    moreover have "unat nai = 21" using True d(3) by (simp add: digits8_def) presburger
    then have "nai = 21" by (simp add: word_unat_eq_iff)
    ultimately show ?thesis using True n
      by (simp add: to_nai_xgt decimals_xgt symbol_validate_iff)
  next
    case False
    have ud: "unat (nai div 10) = ?d" by (simp add: unat_div)
    have up: "unat (ucast dp :: 32 word) \<le> 12" using False n by (simp add: unat_ucast_up)
    have drop: "drop_bit 5 (asset_num s) = nai div 10"
      using False n nai_layout_data[of "nai div 10" "ucast dp"] ud up d(2) by simp
    have prec: "asset_num s AND 0xF = ucast dp"
      using False n nai_layout_precision[of "ucast dp" "nai div 10"] up by simp
    have valid: "valid_nai_num (asset_num s)"
      using False n nai_layout_control[of "ucast dp" "nai div 10"] up d ud drop prec
      by (simp add: valid_nai_num_def)
    obtain m where m: "to_nai s = Inr m" "unat m div 10 = ?d" "unat m mod 10 = unat nai mod 10"
      using to_nai_valid_num[OF valid] drop ud d(3) by auto
    then have "unat m = unat nai" by (metis div_mult_mod_eq)
    then have "m = nai" by (simp add: word_unat_eq_iff)
    moreover have "decimals s = dp"
      using decimals_value[of s] prec by (simp add: word_unat_eq_iff unat_ucast_up)
    ultimately show ?thesis using m(1) valid by (simp add: symbol_validate_iff)
  qed
qed

theorem from_nai_to_nai_witness:
  "from_nai 100000006 3 = Inr \<lparr>asset_num = 320000019\<rparr>
   \<and> to_nai \<lparr>asset_num = 320000019\<rparr> = Inr 100000006"
proof -
  have "from_nai 100000006 3 = Inr \<lparr>asset_num = 320000019\<rparr>"
    by (simp add: from_nai_iff asset_num_from_nai_iff digits8_def)
  with from_nai_to_nai[OF this] show ?thesis by blast
qed

text \<open>C2: the textual form of every valid symbol, except those that carry the reserved
  data digits of XGT, has eleven characters and reads back as the symbol.\<close>

theorem nai_string_round_trip:
  assumes "lexical_cast_decimal lc" and "symbol_validate s = Inr ()"
    and "s = XGT_SYMBOL \<or> drop_bit XGT_NAI_SHIFT (asset_num s) \<noteq> XGT_NAI_XGT"
  shows "\<exists>str. to_nai_string s = Inr str \<and> length str = 11
     \<and> from_nai_string lc (Some str) (decimals s) = Inr s"
proof -
  obtain nai where nai: "to_nai s = Inr nai" "from_nai nai (decimals s) = Inr s"
    using valid_symbol_to_nai[OF assms(2,3)] by auto
  let ?str = "''@@'' @ map digit_char (digits9 (unat nai))"
  have b: "unat nai < 1000000000" using to_nai_bound[OF nai(1)] .
  have "\<forall>d\<in>set (digits9 (unat nai)). d < 10" using digits9_less by blast
  then have "lc (map digit_char (digits9 (unat nai))) = Some (of_nat (dec_value (digits9 (unat nai))))"
    using assms(1) length_digits9 unfolding lexical_cast_decimal_def by blast
  then have "lc (drop 2 ?str) = Some nai" using dec_value_digits9[OF b] by simp
  moreover have "length ?str = 11" by simp
  ultimately show ?thesis
    using nai(2) to_nai_string_digits[OF nai(1) b] by (simp add: from_nai_string_def)
qed

theorem nai_string_round_trip_witness:
  "\<exists>str. to_nai_string \<lparr>asset_num = 320000019\<rparr> = Inr str \<and> length str = 11
     \<and> from_nai_string parse_u32 (Some str) (decimals \<lparr>asset_num = 320000019\<rparr>)
       = Inr \<lparr>asset_num = 320000019\<rparr>"
  by (rule nai_string_round_trip[OF parse_u32_decimal])
    (simp_all add: symbol_validate_def symbol_constants fc_assert_def)

text \<open>C4: the check digit detects every error in a single digit and every swap of two
  neighbouring digits of a nine-digit NAI, check digit included.\<close>

theorem damm_detects_errors:
  assumes "from_nai nai dp = Inr s" and "x \<noteq> y"
    and "digits9 (unat nai) = pre @ x # post \<and> digits9 (unat nai') = pre @ y # post
       \<or> digits9 (unat nai) = pre @ x # y # post \<and> digits9 (unat nai') = pre @ y # x # post"
  shows "\<not> is_ok (from_nai nai' dp')"
proof
  assume "is_ok (from_nai nai' dp')"
  then obtain s' where "from_nai nai' dp' = Inr s'" by (auto simp: result_simps)
  with assms(1) have eq: "damm_fold 0 (digits9 (unat nai)) = damm_fold 0 (digits9 (unat nai'))"
    by (simp add: from_nai_damm)
  have "\<forall>d\<in>set (pre @ x # y # post). d < 10"
    using digits9_less[of _ "unat nai"] digits9_less[of _ "unat nai'"] assms(3) by auto
  with eq assms(2,3) damm_fold_single_error[of pre x post y] damm_fold_transposition[of pre x y post]
  show False by auto
qed

theorem damm_detects_errors_witness:
  "from_nai 100000006 3 = Inr \<lparr>asset_num = 320000019\<rparr> \<and> \<not> is_ok (from_nai 100000060 3)"
proof -
  have ok: "from_nai 100000006 3 = Inr \<lparr>asset_num = 320000019\<rparr>"
    by (simp add: from_nai_iff asset_num_from_nai_iff digits8_def)
  have "digits9 (unat (100000006 :: 32 word)) = [1, 0, 0, 0, 0, 0, 0] @ 0 # 6 # []"
    "digits9 (unat (100000060 :: 32 word)) = [1, 0, 0, 0, 0, 0, 0] @ 6 # 0 # []"
    by (simp_all add: digits9_def digits8_def)
  with damm_detects_errors[OF ok, of 0 6 "[1, 0, 0, 0, 0, 0, 0]" "[]" 100000060 3] ok
  show ?thesis by simp
qed

text \<open>C5: the unrolled table lookups of the checksum compute the Damm fold over the
  eight decimal digits, and larger values are rejected.\<close>

theorem damm_checksum_reference:
  "damm_checksum_8digit v = (if unat v < 100000000
     then Inr (of_nat (damm_fold 0 (digits8 (unat v)))) else Inl (Assert_Exception []))"
  by (simp add: damm_checksum_fold damm_checksum_error)


end
