(* ===== verification/Fc_Arith.thy ===== *)
theory Fc_Arith
  imports Xgt_Prelude
begin

text \<open>
  The integer types of \<open>libraries/fc\<close> the chain computes with: the
  overflow-checked \<open>safe<int64_t>\<close> (\<open>safe.hpp\<close>), the saturating additions of
  \<open>saturation.hpp\<close> and the two-limb \<open>uint128\<close> (\<open>uint128.hpp\<close>, \<open>uint128.cpp\<close>).
  The lemmas show that \<open>safe\<close> returns the exact integer or throws, that the
  saturating operations clamp, and that the limb arithmetic of \<open>uint128\<close> refines
  the arithmetic of 128-bit words.
\<close>

section \<open>safe<int64\_t>\<close>

text \<open>The value of a \<open>safe<int64_t>\<close> is an integer in the range of \<open>in_int64\<close>; the C++
  division truncates towards zero.\<close>

definition safe_add :: "int \<Rightarrow> int \<Rightarrow> int result" where
  "safe_add a b =
    (if b > 0 \<and> a > int64_max - b then Inl Overflow_Exception
     else if b < 0 \<and> a < int64_min - b then Inl Underflow_Exception
     else Inr (a + b))"

definition safe_sub :: "int \<Rightarrow> int \<Rightarrow> int result" where
  "safe_sub a b =
    (if b > 0 \<and> a < int64_min + b then Inl Underflow_Exception
     else if b < 0 \<and> a > int64_max + b then Inl Overflow_Exception
     else Inr (a - b))"

definition safe_mul :: "int \<Rightarrow> int \<Rightarrow> int result" where
  "safe_mul a b =
    (if a > 0 then
       (if b > 0 then
          (if a > int64_max sdiv b then Inl Overflow_Exception else Inr (a * b))
        else (if b < int64_min sdiv a then Inl Underflow_Exception else Inr (a * b)))
     else
       (if b > 0 then
          (if a < int64_min sdiv b then Inl Underflow_Exception else Inr (a * b))
        else (if a \<noteq> 0 \<and> b < int64_max sdiv a then Inl Overflow_Exception else Inr (a * b))))"

definition safe_div :: "int \<Rightarrow> int \<Rightarrow> int result" where
  "safe_div a b =
    (if b = 0 then Inl Divide_By_Zero_Exception
     else if a = int64_min \<and> b = -1 then Inl Overflow_Exception
     else Inr (a sdiv b))"

definition safe_mod :: "int \<Rightarrow> int \<Rightarrow> int result" where
  "safe_mod a b =
    (if b = 0 then Inl Divide_By_Zero_Exception
     else if a = int64_min \<and> b = -1 then Inl Overflow_Exception
     else Inr (a smod b))"

definition safe_neg :: "int \<Rightarrow> int result" where
  "safe_neg a = (if a = int64_min then Inl Overflow_Exception else Inr (- a))"

section \<open>Saturating arithmetic\<close>

definition signed_sat_add :: "64 word \<Rightarrow> 64 word \<Rightarrow> 64 word" where
  "signed_sat_add x y =
    (let res = x + y;
         sat = (if 0 \<le> sint x then of_int int64_max else of_int int64_min)
     in if sint (NOT (x XOR y) AND (x XOR res)) < 0 then sat else res)"

definition signed_sat_sub :: "64 word \<Rightarrow> 64 word \<Rightarrow> 64 word" where
  "signed_sat_sub x y =
    (let res = x - y;
         sat = (if 0 \<le> sint x then of_int int64_max else of_int int64_min)
     in if sint ((x XOR y) AND (x XOR res)) < 0 then sat else res)"

section \<open>uint128\<close>

record uint128 =
  u_hi :: "64 word"
  u_lo :: "64 word"

definition u128_of_u64 :: "64 word \<Rightarrow> uint128" where
  "u128_of_u64 l = \<lparr>u_hi = 0, u_lo = l\<rparr>"

definition u128_of_i64 :: "int \<Rightarrow> uint128" where
  "u128_of_i64 l = \<lparr>u_hi = (if l < 0 then -1 else 0), u_lo = of_int l\<rparr>"

definition u128_less :: "uint128 \<Rightarrow> uint128 \<Rightarrow> bool" where
  "u128_less u v = (if u_hi u = u_hi v then u_lo u < u_lo v else u_hi u < u_hi v)"

definition u128_ge :: "uint128 \<Rightarrow> uint128 \<Rightarrow> bool" where
  "u128_ge l r = (l = r \<or> u128_less r l)"

definition u128_inc :: "uint128 \<Rightarrow> uint128" where
  "u128_inc u = (let l = u_lo u + 1 in \<lparr>u_hi = u_hi u + (if l = 0 then 1 else 0), u_lo = l\<rparr>)"

definition u128_neg :: "uint128 \<Rightarrow> uint128" where
  "u128_neg u = u128_inc \<lparr>u_hi = NOT (u_hi u), u_lo = NOT (u_lo u)\<rparr>"

definition u128_add :: "uint128 \<Rightarrow> uint128 \<Rightarrow> uint128" where
  "u128_add u v = (let old = u_lo u; l = u_lo u + u_lo v
     in \<lparr>u_hi = u_hi u + (u_hi v + (if l < old then 1 else 0)), u_lo = l\<rparr>)"

definition u128_sub :: "uint128 \<Rightarrow> uint128 \<Rightarrow> uint128" where
  "u128_sub u v = u128_add u (u128_neg v)"

definition u128_or_assign :: "uint128 \<Rightarrow> uint128 \<Rightarrow> uint128" where
  "u128_or_assign u v = \<lparr>u_hi = u_hi u OR u_hi v, u_lo = u_lo u OR u_lo v\<rparr>"

text \<open>The binary operator copies its left argument and then assigns the right one to it.\<close>

definition u128_or :: "uint128 \<Rightarrow> uint128 \<Rightarrow> uint128" where
  "u128_or l r = r"

definition u128_shl :: "uint128 \<Rightarrow> nat \<Rightarrow> uint128" where
  "u128_shl u rhs =
    (if rhs \<ge> 128 then \<lparr>u_hi = 0, u_lo = 0\<rparr>
     else let (n, h, l) = (if rhs \<ge> 64 then (rhs - 64, u_lo u, 0) else (rhs, u_hi u, u_lo u))
     in if n \<noteq> 0 then
          let h = push_bit n h;
              mask = NOT (drop_bit n (-1 :: 64 word));
              h = h OR drop_bit (64 - n) (l AND mask)
          in \<lparr>u_hi = h, u_lo = push_bit n l\<rparr>
        else \<lparr>u_hi = h, u_lo = l\<rparr>)"

definition u128_shr :: "uint128 \<Rightarrow> nat \<Rightarrow> uint128" where
  "u128_shr u rhs =
    (if rhs \<ge> 128 then \<lparr>u_hi = 0, u_lo = 0\<rparr>
     else let (n, h, l) = (if rhs \<ge> 64 then (rhs - 64, 0, u_hi u) else (rhs, u_hi u, u_lo u))
     in if n \<noteq> 0 then
          let l = drop_bit n l;
              mask = NOT (push_bit n (-1 :: 64 word));
              l = l OR push_bit (64 - n) (h AND mask)
          in \<lparr>u_hi = drop_bit n h, u_lo = l\<rparr>
        else \<lparr>u_hi = h, u_lo = l\<rparr>)"

definition low32 :: "64 word \<Rightarrow> 64 word" where
  "low32 w = ucast (ucast w :: 32 word)"

definition u128_mul :: "uint128 \<Rightarrow> uint128 \<Rightarrow> uint128" where
  "u128_mul a b =
    (let a0 = low32 (u_lo a); a1 = low32 (drop_bit 32 (u_lo a));
         a2 = low32 (u_hi a); a3 = low32 (drop_bit 32 (u_hi a));
         b0 = low32 (u_lo b); b1 = low32 (drop_bit 32 (u_lo b));
         b2 = low32 (u_hi b); b3 = low32 (drop_bit 32 (u_hi b));
         r = u128_of_u64 (a3 * b0);
         r = u128_add r (u128_of_u64 (a2 * b1));
         r = u128_add r (u128_of_u64 (a1 * b2));
         r = u128_add r (u128_of_u64 (a0 * b3));
         r = u128_shl r 32;
         r = u128_add r (u128_of_u64 (a2 * b0));
         r = u128_add r (u128_of_u64 (a1 * b1));
         r = u128_add r (u128_of_u64 (a0 * b2));
         r = u128_shl r 32;
         r = u128_add r (u128_of_u64 (a1 * b0));
         r = u128_add r (u128_of_u64 (a0 * b1));
         r = u128_shl r 32;
         r = u128_add r (u128_of_u64 (a0 * b0))
     in r)"

definition u128_to_uint64 :: "uint128 \<Rightarrow> 64 word result" where
  "u128_to_uint64 u = (if u_hi u \<noteq> 0 then Inl (Assert_Exception []) else Inr (u_lo u))"

definition u128_to_int64 :: "uint128 \<Rightarrow> int result" where
  "u128_to_int64 u =
    (if u_hi u \<noteq> 0 then Inl (Assert_Exception [])
     else if \<not> uint (u_lo u) \<le> int64_max then Inl (Assert_Exception [])
     else Inr (uint (u_lo u)))"

text \<open>
  The shift-and-subtract division behind the remainder operator.  The first loop
  doubles the divisor until it exceeds the numerator or its top bit is set, at
  most 127 times; the second one shifts back once for every doubling and once
  more.  Both loops carry fuel, one unit per bit of the type and one more.
\<close>

fun divide_up :: "nat \<Rightarrow> uint128 \<Rightarrow> uint128 \<times> uint128 \<Rightarrow> (uint128 \<times> uint128) option" where
  "divide_up 0 n (x, d) = None"
| "divide_up (Suc fuel) n (x, d) =
    (if u128_ge n d \<and> \<not> bit (u_lo (u128_shr d 127)) 0
     then divide_up fuel n (u128_shl x 1, u128_shl d 1)
     else Some (x, d))"

fun divide_down :: "nat \<Rightarrow> uint128 \<times> uint128 \<Rightarrow> uint128 \<times> uint128 \<Rightarrow> (uint128 \<times> uint128) option" where
  "divide_down 0 (x, d) (n, answer) = None"
| "divide_down (Suc fuel) (x, d) (n, answer) =
    (if x \<noteq> \<lparr>u_hi = 0, u_lo = 0\<rparr> then
       (let (n, answer) = (if u128_ge n d then (u128_sub n d, u128_or_assign answer x) else (n, answer))
        in divide_down fuel (u128_shr x 1, u128_shr d 1) (n, answer))
     else Some (answer, n))"

definition u128_divide :: "uint128 \<Rightarrow> uint128 \<Rightarrow> (uint128 \<times> uint128) result" where
  "u128_divide numerator denominator =
    (if denominator = \<lparr>u_hi = 0, u_lo = 0\<rparr> then Inl Divide_By_Zero_Exception
     else case divide_up 129 numerator (\<lparr>u_hi = 0, u_lo = 1\<rparr>, denominator) of
       None \<Rightarrow> Inl (Logic_Error ''fuel'')
     | Some (x, d) \<Rightarrow>
        (case divide_down 130 (x, d) (numerator, \<lparr>u_hi = 0, u_lo = 0\<rparr>) of
           None \<Rightarrow> Inl (Logic_Error ''fuel'')
         | Some (q, r) \<Rightarrow> Inr (q, r)))"

definition u128_mod :: "uint128 \<Rightarrow> uint128 \<Rightarrow> uint128 result" where
  "u128_mod a b = res_bind (u128_divide a b) (\<lambda>(q, r). Inr r)"

section \<open>Reference definitions\<close>

text \<open>The mathematical result with the exception its range demands, and the 128-bit word
  a pair of limbs denotes.\<close>

definition int64_result :: "int \<Rightarrow> int result" where
  "int64_result x = (if x > int64_max then Inl Overflow_Exception
     else if x < int64_min then Inl Underflow_Exception else Inr x)"

definition u128_word :: "uint128 \<Rightarrow> 128 word" where
  "u128_word u = push_bit 64 (ucast (u_hi u)) OR ucast (u_lo u)"

section \<open>safe: exact or an exception\<close>

lemma zdiv_less_iff:
  fixes m a b :: int
  assumes "0 < b"
  shows "m div b < a \<longleftrightarrow> m < a * b"
proof
  assume "m div b < a"
  then have "(m div b + 1) * b \<le> a * b" using assms by (intro mult_right_mono) auto
  moreover have "m < (m div b + 1) * b"
    using assms div_mult_mod_eq[of m b] pos_mod_bound[of b m]
    unfolding distrib_right mult_1_left by linarith
  ultimately show "m < a * b" by simp
next
  assume "m < a * b"
  moreover have "m div b * b \<le> m" using assms div_mult_mod_eq[of m b] pos_mod_sign[of b m] by linarith
  ultimately have "m div b * b < a * b" by simp
  with assms show "m div b < a" by simp
qed

lemma sdiv_less_iff:
  fixes m a b :: int
  shows "0 < b \<Longrightarrow> 0 \<le> m \<Longrightarrow> m sdiv b < a \<longleftrightarrow> m < a * b"
    and "0 < b \<Longrightarrow> m < 0 \<Longrightarrow> a < m sdiv b \<longleftrightarrow> a * b < m"
    and "b < 0 \<Longrightarrow> 0 \<le> m \<Longrightarrow> a < m sdiv b \<longleftrightarrow> m < a * b"
proof -
  assume "0 < b" "0 \<le> m"
  then have "m sdiv b = m div b" by (cases "m = 0") (simp_all add: signed_divide_int_def)
  with \<open>0 < b\<close> show "m sdiv b < a \<longleftrightarrow> m < a * b" by (simp add: zdiv_less_iff)
next
  assume "0 < b" "m < 0"
  then have "m sdiv b = - ((- m) div b)" by (simp add: signed_divide_int_def)
  moreover have "(- m) div b < - a \<longleftrightarrow> - m < - a * b"
    using \<open>0 < b\<close> by (rule zdiv_less_iff)
  ultimately show "a < m sdiv b \<longleftrightarrow> a * b < m" by auto
next
  assume "b < 0" "0 \<le> m"
  then have "m sdiv b = - (m div (- b))" by (cases "m = 0") (simp_all add: signed_divide_int_def)
  moreover have "m div (- b) < - a \<longleftrightarrow> m < - a * (- b)"
    using \<open>b < 0\<close> by (intro zdiv_less_iff) simp
  ultimately show "a < m sdiv b \<longleftrightarrow> m < a * b" by auto
qed

lemma safe_add_exact: "in_int64 a \<Longrightarrow> in_int64 b \<Longrightarrow> safe_add a b = int64_result (a + b)"
  by (auto simp: safe_add_def int64_result_def int64_defs)

lemma safe_sub_exact: "in_int64 a \<Longrightarrow> in_int64 b \<Longrightarrow> safe_sub a b = int64_result (a - b)"
  by (auto simp: safe_sub_def int64_result_def int64_defs)

lemma safe_mul_exact: "in_int64 a \<Longrightarrow> in_int64 b \<Longrightarrow> safe_mul a b = int64_result (a * b)"
proof -
  have m: "int64_min < 0" "0 \<le> int64_max" by (simp_all add: int64_defs)
  consider "a > 0" "b > 0" | "a > 0" "b \<le> 0" | "a \<le> 0" "b > 0" | "a = 0" "b \<le> 0" | "a < 0" "b \<le> 0"
    by linarith
  then show ?thesis
  proof cases
    case 1
    then have "0 < a * b" by simp
    with m have "\<not> a * b < int64_min" by linarith
    with 1 m show ?thesis by (simp add: safe_mul_def int64_result_def sdiv_less_iff)
  next
    case 2
    then have "a * b \<le> 0" by (simp add: mult_nonneg_nonpos)
    with 2 m show ?thesis by (simp add: safe_mul_def int64_result_def sdiv_less_iff mult.commute)
  next
    case 3
    then have "a * b \<le> 0" by (simp add: mult_nonpos_nonneg)
    with 3 m show ?thesis by (simp add: safe_mul_def int64_result_def sdiv_less_iff)
  next
    case 4
    with m show ?thesis by (simp add: safe_mul_def int64_result_def)
  next
    case 5
    then have "0 \<le> a * b" by (simp add: mult_nonpos_nonpos)
    with 5 m show ?thesis
      by (simp add: safe_mul_def int64_result_def sdiv_less_iff mult.commute)
  qed
qed

lemma int64_result_Inr [result_simps]: "int64_result x = Inr y \<longleftrightarrow> y = x \<and> in_int64 x"
  by (auto simp: int64_result_def in_int64_def)

section \<open>Saturation\<close>

lemma signed_take_bit_63:
  fixes s :: int
  shows "- (2 ^ 63) \<le> s \<Longrightarrow> s < 2 ^ 63 \<Longrightarrow> signed_take_bit 63 s = s"
    and "2 ^ 63 \<le> s \<Longrightarrow> s < 2 ^ 64 \<Longrightarrow> signed_take_bit 63 s = s - 2 ^ 64"
    and "- (2 ^ 64) \<le> s \<Longrightarrow> s < - (2 ^ 63) \<Longrightarrow> signed_take_bit 63 s = s + 2 ^ 64"
proof -
  have eq: "signed_take_bit 63 s = (s + 2 ^ 63) mod 2 ^ 64 - 2 ^ 63"
    by (simp add: signed_take_bit_eq_take_bit_shift take_bit_eq_mod)
  show "- (2 ^ 63) \<le> s \<Longrightarrow> s < 2 ^ 63 \<Longrightarrow> signed_take_bit 63 s = s"
    unfolding eq by (simp add: mod_pos_pos_trivial)
  show "2 ^ 63 \<le> s \<Longrightarrow> s < 2 ^ 64 \<Longrightarrow> signed_take_bit 63 s = s - 2 ^ 64"
    unfolding eq using mod_add_self2[of "s + 2 ^ 63 - 2 ^ 64" "2 ^ 64"]
    by (simp add: mod_pos_pos_trivial add.commute)
  show "- (2 ^ 64) \<le> s \<Longrightarrow> s < - (2 ^ 63) \<Longrightarrow> signed_take_bit 63 s = s + 2 ^ 64"
    unfolding eq using mod_add_self2[of "s + 2 ^ 63" "2 ^ 64"]
    by (simp add: mod_pos_pos_trivial)
qed

lemma sint_64_range: "- (2 ^ 63) \<le> sint (x :: 64 word)" "sint (x :: 64 word) < 2 ^ 63"
  using sint_ge[of x] sint_lt[of x] by simp_all

lemma sint_neg_bit: "sint (w :: 64 word) < 0 \<longleftrightarrow> bit w 63"
  using bit_last_iff[of w] by simp

lemma signed_sat_add_clamps:
  "sint (signed_sat_add x y) = max int64_min (min int64_max (sint x + sint y))"
proof -
  let ?s = "sint x + sint y"
  have r: "sint (x + y) = signed_take_bit 63 ?s" by (simp add: sint_word_add)
  have o: "sint (NOT (x XOR y) AND (x XOR (x + y))) < 0 \<longleftrightarrow>
      (sint x < 0 \<longleftrightarrow> sint y < 0) \<and> (sint x < 0 \<longleftrightarrow> \<not> sint (x + y) < 0)"
    unfolding sint_neg_bit by (auto simp: bit_and_iff bit_not_iff bit_xor_iff)
  consider "- (2 ^ 63) \<le> ?s" "?s < 2 ^ 63" | "2 ^ 63 \<le> ?s" | "?s < - (2 ^ 63)" by linarith
  then show ?thesis
  proof cases
    case 1
    then have "sint (x + y) = ?s" using r signed_take_bit_63(1) by simp
    with o have "\<not> sint (NOT (x XOR y) AND (x XOR (x + y))) < 0" by auto
    then show ?thesis using 1 \<open>sint (x + y) = ?s\<close>
      by (simp add: signed_sat_add_def Let_def int64_defs)
  next
    case 2
    then have "sint (x + y) = ?s - 2 ^ 64"
      using r signed_take_bit_63(2)[of ?s] sint_64_range[of x] sint_64_range[of y] by simp
    moreover have "0 < sint x" "0 < sint y" using 2 sint_64_range[of x] sint_64_range[of y] by simp_all
    ultimately show ?thesis using 2 o sint_64_range[of x] sint_64_range[of y]
      by (simp add: signed_sat_add_def Let_def int64_defs)
  next
    case 3
    then have "sint (x + y) = ?s + 2 ^ 64"
      using r signed_take_bit_63(3)[of ?s] sint_64_range[of x] sint_64_range[of y] by simp
    moreover have "sint x < 0" "sint y < 0" using 3 sint_64_range[of x] sint_64_range[of y] by simp_all
    ultimately show ?thesis using 3 o sint_64_range[of x] sint_64_range[of y]
      by (simp add: signed_sat_add_def Let_def int64_defs)
  qed
qed

lemma signed_sat_sub_clamps:
  "sint (signed_sat_sub x y) = max int64_min (min int64_max (sint x - sint y))"
proof -
  let ?s = "sint x - sint y"
  have r: "sint (x - y) = signed_take_bit 63 ?s" by (simp add: sint_word_diff)
  have o: "sint ((x XOR y) AND (x XOR (x - y))) < 0 \<longleftrightarrow>
      (sint x < 0 \<longleftrightarrow> \<not> sint y < 0) \<and> (sint x < 0 \<longleftrightarrow> \<not> sint (x - y) < 0)"
    unfolding sint_neg_bit by (auto simp: bit_and_iff bit_xor_iff)
  consider "- (2 ^ 63) \<le> ?s" "?s < 2 ^ 63" | "2 ^ 63 \<le> ?s" | "?s < - (2 ^ 63)" by linarith
  then show ?thesis
  proof cases
    case 1
    then have "sint (x - y) = ?s" using r signed_take_bit_63(1) by simp
    with o have "\<not> sint ((x XOR y) AND (x XOR (x - y))) < 0" by auto
    then show ?thesis using 1 \<open>sint (x - y) = ?s\<close>
      by (simp add: signed_sat_sub_def Let_def int64_defs)
  next
    case 2
    then have "sint (x - y) = ?s - 2 ^ 64"
      using r signed_take_bit_63(2)[of ?s] sint_64_range[of x] sint_64_range[of y] by simp
    moreover have "0 \<le> sint x" "sint y < 0" using 2 sint_64_range[of x] sint_64_range[of y] by simp_all
    ultimately show ?thesis using 2 o sint_64_range[of x] sint_64_range[of y]
      by (simp add: signed_sat_sub_def Let_def int64_defs)
  next
    case 3
    then have "sint (x - y) = ?s + 2 ^ 64"
      using r signed_take_bit_63(3)[of ?s] sint_64_range[of x] sint_64_range[of y] by simp
    moreover have "sint x < 0" "0 < sint y" using 3 sint_64_range[of x] sint_64_range[of y] by simp_all
    ultimately show ?thesis using 3 o sint_64_range[of x] sint_64_range[of y]
      by (simp add: signed_sat_sub_def Let_def int64_defs)
  qed
qed

lemma bit_u128_word:
  "bit (u128_word u) i \<longleftrightarrow> (if i < 64 then bit (u_lo u) i else bit (u_hi u) (i - 64))"
  by (auto simp: u128_word_def bit_or_iff bit_push_bit_iff bit_ucast_iff dest: bit_imp_le_length)

lemma u128_word_inject: "u128_word u = u128_word v \<longleftrightarrow> u = v"
proof
  assume eq: "u128_word u = u128_word v"
  have "u_lo u = u_lo v"
  proof (rule bit_word_eqI)
    fix i assume "i < LENGTH(64)"
    then show "bit (u_lo u) i = bit (u_lo v) i"
      using bit_u128_word[of u i] bit_u128_word[of v i] eq by simp
  qed
  moreover have "u_hi u = u_hi v"
  proof (rule bit_word_eqI)
    fix i assume "i < LENGTH(64)"
    then show "bit (u_hi u) i = bit (u_hi v) i"
      using bit_u128_word[of u "i + 64"] bit_u128_word[of v "i + 64"] eq by simp
  qed
  ultimately show "u = v" by simp
qed simp

lemma u128_word_sum: "u128_word u = ucast (u_lo u) + ucast (u_hi u) * 2 ^ 64"
proof -
  have "push_bit 64 (ucast (u_hi u)) OR ucast (u_lo u) =
      push_bit 64 (ucast (u_hi u)) + (ucast (u_lo u) :: 128 word)"
    by (rule disjunctive_add[symmetric]) (auto simp: bit_push_bit_iff bit_ucast_iff dest: bit_imp_le_length)
  then show ?thesis by (simp add: u128_word_def push_bit_eq_mult)
qed

lemma unat_u128_word: "unat (u128_word u) = unat (u_hi u) * 2 ^ 64 + unat (u_lo u)"
proof -
  have "unat (u_hi u) < 2 ^ 64" "unat (u_lo u) < 2 ^ 64"
    using unsigned_less[of "u_hi u"] unsigned_less[of "u_lo u"] by simp_all
  then show ?thesis
    by (simp add: u128_word_sum unat_word_ariths unat_ucast_up)
qed

lemma u128_word_of_u64 [simp]: "u128_word (u128_of_u64 x) = ucast x"
  by (simp add: u128_word_def u128_of_u64_def)

lemma int64_sign_bits:
  assumes "in_int64 x" "63 \<le> i"
  shows "bit x i \<longleftrightarrow> x < 0"
proof -
  have x: "signed_take_bit 63 x = x"
    using assms(1) by (intro signed_take_bit_63(1)) (simp_all add: int64_defs)
  have "bit x i = bit (signed_take_bit 63 x) i" using x by simp
  also have "\<dots> = bit x 63" using assms(2) by (simp add: bit_signed_take_bit_iff min_def)
  also have "\<dots> \<longleftrightarrow> x < 0" using signed_take_bit_negative_iff[of 63 x] x by simp
  finally show ?thesis .
qed

lemma u128_word_of_i64: "in_int64 x \<Longrightarrow> u128_word (u128_of_i64 x) = of_int x"
  by (rule bit_word_eqI)
    (auto simp: bit_u128_word u128_of_i64_def bit_of_int_iff int64_sign_bits bit_minus_1_iff)

lemma u128_word_zero_iff: "u128_word u = 0 \<longleftrightarrow> u = \<lparr>u_hi = 0, u_lo = 0\<rparr>"
  using u128_word_inject[of u "\<lparr>u_hi = 0, u_lo = 0\<rparr>"] by (simp add: u128_word_def)

lemma carry_iff: "x + y < x \<longleftrightarrow> 2 ^ 64 \<le> unat x + unat y" for x y :: "64 word"
proof -
  have "unat x < 2 ^ 64" "unat y < 2 ^ 64"
    using unsigned_less[of x] unsigned_less[of y] by simp_all
  then show ?thesis
    by (auto simp: word_less_nat_alt unat_word_ariths mod_if)
qed

lemma limb_mod:
  fixes h l m :: nat
  assumes "0 < m"
  shows "(h + l div m) mod m * m + l mod m = (h * m + l) mod (m * m)"
  using assms unfolding mod_mult2_eq by (simp add: mult.commute)

lemma u128_word_add [simp]: "u128_word (u128_add u v) = u128_word u + u128_word v"
proof -
  let ?h = "unat (u_hi u)" and ?l = "unat (u_lo u)" and ?h' = "unat (u_hi v)" and ?l' = "unat (u_lo v)"
  have b: "?l < 2 ^ 64" "?l' < 2 ^ 64" using unsigned_less[of "u_lo u"] unsigned_less[of "u_lo v"] by simp_all
  have "unat (u128_word (u128_add u v)) =
     (?h + (?h' + (if 2 ^ 64 \<le> ?l + ?l' then 1 else 0))) mod 2 ^ 64 * 2 ^ 64 + (?l + ?l') mod 2 ^ 64"
    by (simp add: unat_u128_word u128_add_def Let_def carry_iff unat_word_ariths mod_simps)
  also have "\<dots> = ((?h + ?h' + (?l + ?l') div 2 ^ 64) mod 2 ^ 64) * 2 ^ 64 + (?l + ?l') mod 2 ^ 64"
    using b by (simp add: div_if)
  also have "\<dots> = ((?h * 2 ^ 64 + ?l) + (?h' * 2 ^ 64 + ?l')) mod (2 ^ 64 * 2 ^ 64)"
    using limb_mod[of "2 ^ 64" "?h + ?h'" "?l + ?l'"] by (simp add: distrib_right add_ac)
  finally show ?thesis
    by (simp add: word_unat_eq_iff unat_word_ariths unat_u128_word)
qed
lemma u128_word_shl [simp]: "u128_word (u128_shl u n) = push_bit n (u128_word u)"
proof (rule bit_word_eqI)
  fix i assume i: "i < LENGTH(128)"
  show "bit (u128_word (u128_shl u n)) i = bit (push_bit n (u128_word u)) i"
    using i by (auto simp: bit_u128_word u128_shl_def Let_def bit_push_bit_iff bit_drop_bit_eq
      bit_or_iff bit_and_iff bit_not_iff bit_minus_1_iff bit_mask_iff add.commute dest: bit_imp_le_length)
qed

lemma u128_word_shr [simp]: "u128_word (u128_shr u n) = drop_bit n (u128_word u)"
proof (rule bit_word_eqI)
  fix i assume i: "i < LENGTH(128)"
  show "bit (u128_word (u128_shr u n)) i = bit (drop_bit n (u128_word u)) i"
    using i by (auto simp: bit_u128_word u128_shr_def Let_def bit_push_bit_iff bit_drop_bit_eq
      bit_or_iff bit_and_iff bit_not_iff bit_minus_1_iff bit_mask_iff add.commute dest: bit_imp_le_length)
qed

lemma u128_word_or [simp]: "u128_word (u128_or_assign u v) = u128_word u OR u128_word v"
  by (rule bit_word_eqI) (auto simp: bit_u128_word u128_or_assign_def bit_or_iff)

lemma u128_word_neg [simp]: "u128_word (u128_neg u) = - u128_word u"
proof -
  have inc: "u128_word (u128_inc v) = u128_word v + 1" for v
  proof -
    have "unat (u_lo v) < 2 ^ 64" using unsigned_less[of "u_lo v"] by simp
    then have "u_lo v + 1 < u_lo v \<longleftrightarrow> u_lo v + 1 = 0"
      by (auto simp: carry_iff word_unat_eq_iff unat_word_ariths mod_if)
    then have "u128_inc v = u128_add v \<lparr>u_hi = 0, u_lo = 1\<rparr>"
      by (simp add: u128_inc_def u128_add_def Let_def)
    moreover have "u128_word \<lparr>u_hi = 0, u_lo = 1\<rparr> = 1" by (simp add: u128_word_def)
    ultimately show ?thesis by simp
  qed
  have "u128_word \<lparr>u_hi = NOT (u_hi u), u_lo = NOT (u_lo u)\<rparr> = NOT (u128_word u)"
    by (rule bit_word_eqI) (auto simp: bit_u128_word bit_not_iff)
  then show ?thesis by (simp add: u128_neg_def inc minus_eq_not_plus_1)
qed

lemma u128_word_sub [simp]: "u128_word (u128_sub u v) = u128_word u - u128_word v"
  by (simp add: u128_sub_def)

lemma u128_word_less [simp]: "u128_less u v \<longleftrightarrow> u128_word u < u128_word v"
proof -
  have "unat (u_lo u) < 2 ^ 64" "unat (u_lo v) < 2 ^ 64"
    using unsigned_less[of "u_lo u"] unsigned_less[of "u_lo v"] by simp_all
  then show ?thesis
    by (auto simp: u128_less_def word_less_nat_alt word_unat_eq_iff unat_u128_word)
qed

lemma u128_word_ge [simp]: "u128_ge u v \<longleftrightarrow> u128_word v \<le> u128_word u"
  using u128_word_inject[of u v] by (auto simp: u128_ge_def order_le_less)

lemma unat_low32: "unat (low32 w) = unat w mod 2 ^ 32"
  by (simp add: low32_def unat_ucast_up unsigned_ucast_eq take_bit_eq_mod unat_mod)

lemma ucast_low32_mult:
  "(ucast (low32 x * low32 y) :: 128 word) = ucast (low32 x) * ucast (low32 y)"
proof -
  have "unat (low32 x) < 2 ^ 32" "unat (low32 y) < 2 ^ 32" by (simp_all add: unat_low32)
  then have "unat (low32 x) * unat (low32 y) < 2 ^ 32 * 2 ^ 32" by (intro mult_strict_mono) simp_all
  then show ?thesis by (simp add: word_unat_eq_iff unat_ucast_up unat_word_ariths)
qed

lemma limbs64: "(ucast w :: 128 word) = ucast (low32 w) + ucast (low32 (drop_bit 32 w)) * 2 ^ 32" for w :: "64 word"
proof -
  have "unat w < 2 ^ 64" using unsigned_less[of w] by simp
  then have "unat (drop_bit 32 w) = unat w div 2 ^ 32" "unat w div 2 ^ 32 < 2 ^ 32"
    by (simp_all add: drop_bit_eq_div unat_div less_mult_imp_div_less)
  then show ?thesis
    by (simp add: word_unat_eq_iff unat_ucast_up unat_word_ariths unat_low32)
qed

lemma limb_product:
  fixes x :: "'a::comm_ring_1"
  assumes "x ^ 4 = 0"
  shows "(a0 + a1 * x + (a2 + a3 * x) * x ^ 2) * (b0 + b1 * x + (b2 + b3 * x) * x ^ 2) =
    (((a3 * b0 + a2 * b1 + a1 * b2 + a0 * b3) * x + a2 * b0 + a1 * b1 + a0 * b2) * x
      + a1 * b0 + a0 * b1) * x + a0 * b0"
proof -
  have "(a0 + a1 * x + (a2 + a3 * x) * x ^ 2) * (b0 + b1 * x + (b2 + b3 * x) * x ^ 2) =
    (((a3 * b0 + a2 * b1 + a1 * b2 + a0 * b3) * x + a2 * b0 + a1 * b1 + a0 * b2) * x
      + a1 * b0 + a0 * b1) * x + a0 * b0
    + (a1 * b3 + a2 * b2 + a3 * b1 + (a2 * b3 + a3 * b2) * x + a3 * b3 * x ^ 2) * x ^ 4"
    by (simp add: algebra_simps power2_eq_square power4_eq_xxxx)
  with assms show ?thesis by simp
qed

lemma u128_word_mul: "u128_word (u128_mul a b) = u128_word a * u128_word b"
proof -
  let ?c = "\<lambda>w. ucast (low32 w) :: 128 word"
  define x :: "128 word" where "x = 2 ^ 32"
  have x: "x ^ 4 = 0" "2 ^ 64 = x ^ 2" "\<And>w. push_bit 32 w = w * x"
    by (simp_all add: x_def push_bit_eq_mult)
  have w: "u128_word u = ?c (u_lo u) + ?c (drop_bit 32 (u_lo u)) * x
     + (?c (u_hi u) + ?c (drop_bit 32 (u_hi u)) * x) * x ^ 2" for u
    unfolding u128_word_sum limbs64[of "u_lo u"] limbs64[of "u_hi u"] x(2) x_def[symmetric] ..
  show ?thesis
    unfolding u128_mul_def Let_def w[of a] w[of b] limb_product[OF x(1)]
    by (simp add: ucast_low32_mult x(3))
qed
section \<open>Division\<close>

lemma unat_u128_bound: "unat (u128_word u) < 2 ^ 128"
  using unsigned_less[of "u128_word u"] by simp

lemma u128_top_bit: "bit (u_lo (u128_shr d 127)) 0 \<longleftrightarrow> 2 ^ 127 \<le> unat (u128_word d)"
proof -
  have "bit (u_lo (u128_shr d 127)) 0 = bit (u128_word (u128_shr d 127)) 0" by (simp only: bit_u128_word) simp
  also have "\<dots> = bit (u128_word d) 127" by (simp add: bit_drop_bit_eq)
  also have "\<dots> \<longleftrightarrow> odd (unat (u128_word d) div 2 ^ 127)"
    using bit_iff_odd[of "unat (u128_word d)" 127] by (simp add: bit_unsigned_iff)
  also have "unat (u128_word d) div 2 ^ 127 = (if 2 ^ 127 \<le> unat (u128_word d) then 1 else 0)"
    using unat_u128_bound[of d] by (simp add: div_nat_eqI)
  also have "odd (if 2 ^ 127 \<le> unat (u128_word d) then 1 else 0 :: nat) \<longleftrightarrow> 2 ^ 127 \<le> unat (u128_word d)"
    by simp
  finally show ?thesis .
qed

lemma divide_up_result:
  assumes "unat (u128_word x) = 2 ^ k" and "unat (u128_word d) = den * 2 ^ k"
    and "0 < den" and "k + fuel = 129" and "den * 2 ^ k < 2 ^ 128"
  shows "\<exists>x' d' k'. divide_up fuel n (x, d) = Some (x', d') \<and> unat (u128_word x') = 2 ^ k'
    \<and> unat (u128_word d') = den * 2 ^ k' \<and> k' \<le> 127 \<and> unat (u128_word n) < 2 * unat (u128_word d')"
  using assms
proof (induction fuel arbitrary: x d k)
  case 0
  then have "(2::nat) ^ 129 \<le> den * 2 ^ 129" by simp
  with 0 show ?case by simp
next
  case (Suc fuel)
  have k: "k \<le> 127"
  proof (rule ccontr)
    assume "\<not> k \<le> 127"
    then have "(2::nat) ^ 128 \<le> 2 ^ k" by (intro power_increasing) auto
    also have "\<dots> \<le> den * 2 ^ k" using Suc.prems(3) by simp
    finally show False using Suc.prems(5) by simp
  qed
  show ?case
  proof (cases "u128_ge n d \<and> \<not> bit (u_lo (u128_shr d 127)) 0")
    case True
    then have lt: "den * 2 ^ Suc k < 2 ^ 128" using Suc.prems(2) by (simp add: u128_top_bit)
    moreover have "(2::nat) ^ Suc k \<le> den * 2 ^ Suc k" using Suc.prems(3) by simp
    ultimately have "(2::nat) ^ Suc k < 2 ^ 128" by (rule le_less_trans[rotated])
    with lt have "unat (u128_word (u128_shl x 1)) = 2 ^ Suc k"
      "unat (u128_word (u128_shl d 1)) = den * 2 ^ Suc k"
      using Suc.prems(1,2) by (simp_all add: push_bit_eq_mult unat_word_ariths)
    with Suc.IH[OF this] lt Suc.prems True show ?thesis by simp
  next
    case False
    then have "unat (u128_word n) < 2 * unat (u128_word d)"
      using unat_u128_bound[of n] by (auto simp: u128_top_bit word_le_nat_alt)
    with False Suc.prems k show ?thesis by auto
  qed
qed

lemma u128_or_power:
  assumes "unat (u128_word x) = 2 ^ k" and "2 ^ Suc k dvd unat (u128_word a)"
  shows "unat (u128_word (u128_or_assign a x)) = unat (u128_word a) + 2 ^ k"
proof -
  obtain c where c: "unat (u128_word a) = 2 ^ Suc k * c" using assms(2) by (rule dvdE)
  have "unat (u128_word a) div 2 ^ k = 2 * c" by (simp add: c)
  then have "\<not> bit (unat (u128_word a)) k" by (simp add: bit_iff_odd)
  then have "unat (u128_word a) + 2 ^ k = unat (u128_word a) OR 2 ^ k"
    by (intro disjunctive_add) (auto simp: bit_exp_iff)
  then show ?thesis using assms(1) by (simp add: unsigned_or_eq)
qed

lemma divide_down_stop:
  "u128_word x = 0 \<Longrightarrow> divide_down (Suc fuel) (x, d) (n, a) = Some (a, n)"
  by (simp add: u128_word_zero_iff)

lemma divide_down_step:
  assumes "u128_word x \<noteq> 0"
  shows "divide_down (Suc fuel) (x, d) (n, a) =
    (if u128_word d \<le> u128_word n
     then divide_down fuel (u128_shr x 1, u128_shr d 1) (u128_sub n d, u128_or_assign a x)
     else divide_down fuel (u128_shr x 1, u128_shr d 1) (n, a))"
  using assms by (simp add: u128_word_zero_iff)

lemma unat_u128_half: "unat (u128_word (u128_shr d 1)) = unat (u128_word d) div 2"
  by (simp add: drop_bit_eq_div unat_div)

lemma divide_down_result:
  assumes "unat (u128_word x) = 2 ^ k" and "unat (u128_word d) = den * 2 ^ k"
    and "unat (u128_word n) < 2 * (den * 2 ^ k)" and "2 ^ Suc k dvd unat (u128_word a)"
    and "k + 2 \<le> fuel"
  shows "\<exists>q r. divide_down fuel (x, d) (n, a) = Some (q, r) \<and> unat (u128_word r) < den
    \<and> unat (u128_word q) * den + unat (u128_word r) = unat (u128_word a) * den + unat (u128_word n)"
  using assms
proof (induction k arbitrary: x d n a fuel)
  case 0
  then obtain f where f: "fuel = Suc (Suc f)" by (cases fuel; cases "fuel - 1") auto
  have x: "u128_word x = 1" using 0(1) by (simp add: word_unat_eq_iff)
  then have nz: "u128_word x \<noteq> 0" and h: "u128_word (u128_shr x 1) = 0" by (simp_all add: drop_bit_eq_div)
  show ?case
    using 0 nz h u128_or_power[OF 0(1), of a]
    by (auto simp: f divide_down_step divide_down_stop word_le_nat_alt unat_sub algebra_simps
      simp del: divide_down.simps)
next
  case (Suc k)
  then obtain f where f: "fuel = Suc f" "k + 2 \<le> f" by (cases fuel) auto
  have nz: "u128_word x \<noteq> 0" using Suc.prems(1) by auto
  have h: "unat (u128_word (u128_shr x 1)) = 2 ^ k" "unat (u128_word (u128_shr d 1)) = den * 2 ^ k"
    using Suc.prems(1,2) unfolding unat_u128_half by simp_all
  show ?case
  proof (cases "u128_word d \<le> u128_word n")
    case True
    let ?n = "u128_sub n d" and ?a = "u128_or_assign a x"
    have n: "unat (u128_word ?n) = unat (u128_word n) - den * 2 ^ Suc k" "den * 2 ^ Suc k \<le> unat (u128_word n)"
      using True Suc.prems(2) by (simp_all add: unat_sub word_le_nat_alt)
    have a: "unat (u128_word ?a) = unat (u128_word a) + 2 ^ Suc k"
      using u128_or_power[OF Suc.prems(1,4)] .
    have "2 ^ Suc k dvd unat (u128_word ?a)"
      using Suc.prems(4) unfolding a power_Suc[of 2 "Suc k"] by (intro dvd_add dvd_refl) (rule dvd_mult_right)
    moreover have "unat (u128_word ?n) < 2 * (den * 2 ^ k)" using n Suc.prems(3) by simp
    ultimately obtain q r where "divide_down f (u128_shr x 1, u128_shr d 1) (?n, ?a) = Some (q, r)"
       "unat (u128_word r) < den"
       "unat (u128_word q) * den + unat (u128_word r) = unat (u128_word ?a) * den + unat (u128_word ?n)"
      using Suc.IH[OF h _ _ f(2)] by blast
    then show ?thesis using True n a nz by (simp add: f divide_down_step algebra_simps del: divide_down.simps)
  next
    case False
    then have "unat (u128_word n) < 2 * (den * 2 ^ k)" using Suc.prems(2) by (simp add: word_le_nat_alt)
    moreover have "2 ^ Suc k dvd unat (u128_word a)" using Suc.prems(4) unfolding power_Suc[of 2 "Suc k"] by (rule dvd_mult_right)
    ultimately show ?thesis using Suc.IH[OF h _ _ f(2)] False nz
      by (simp add: f divide_down_step del: divide_down.simps)
  qed
qed

lemma u128_divide_correct:
  assumes "u128_word d \<noteq> 0"
  shows "\<exists>q r. u128_divide n d = Inr (q, r) \<and> u128_word q = u128_word n div u128_word d
    \<and> u128_word r = u128_word n mod u128_word d"
proof -
  let ?D = "unat (u128_word d)"
  have D: "0 < ?D" using assms by (simp add: word_unat_eq_iff)
  have one: "unat (u128_word \<lparr>u_hi = 0, u_lo = 1\<rparr>) = 2 ^ 0" by (simp add: u128_word_def)
  have zero: "unat (u128_word \<lparr>u_hi = 0, u_lo = 0\<rparr>) = 0" by (simp add: u128_word_def)
  obtain x' d' k where up: "divide_up 129 n (\<lparr>u_hi = 0, u_lo = 1\<rparr>, d) = Some (x', d')"
      "unat (u128_word x') = 2 ^ k" "unat (u128_word d') = ?D * 2 ^ k" "k \<le> 127"
      "unat (u128_word n) < 2 * unat (u128_word d')"
    using divide_up_result[OF one, of d ?D 129 n] D unat_u128_bound[of d] by auto
  obtain q r where dn: "divide_down 130 (x', d') (n, \<lparr>u_hi = 0, u_lo = 0\<rparr>) = Some (q, r)"
      "unat (u128_word r) < ?D" "unat (u128_word q) * ?D + unat (u128_word r) = unat (u128_word n)"
    using divide_down_result[OF up(2,3), of n "\<lparr>u_hi = 0, u_lo = 0\<rparr>" 130] up(3,4,5) zero by auto
  have "unat (u128_word n) div ?D = unat (u128_word q)" "unat (u128_word n) mod ?D = unat (u128_word r)"
    using dn(2) D unfolding dn(3)[symmetric] by simp_all
  then have "u128_word q = u128_word n div u128_word d" "u128_word r = u128_word n mod u128_word d"
    by (simp_all add: word_unat_eq_iff unat_div unat_mod)
  moreover have "d \<noteq> \<lparr>u_hi = 0, u_lo = 0\<rparr>" using assms by (simp add: u128_word_zero_iff)
  ultimately show ?thesis using up(1) dn(1) by (simp add: u128_divide_def del: divide_down.simps divide_up.simps)
qed

section \<open>Properties\<close>



text \<open>C8: the branch-free saturating addition and subtraction clamp the exact result to the
  64-bit range.\<close>

theorem signed_sat_clamps:
  "sint (signed_sat_add x y) = max int64_min (min int64_max (sint x + sint y))
   \<and> sint (signed_sat_sub x y) = max int64_min (min int64_max (sint x - sint y))"
  by (simp add: signed_sat_add_clamps signed_sat_sub_clamps)

text \<open>C9: the limb operations of \<open>uint128\<close> compute the operations of 128-bit words: addition
  with carry, subtraction through the complement, shifts across the limbs, the comparison and the
  schoolbook multiplication on 32-bit digits.\<close>

theorem u128_refines_words:
  "u128_word (u128_add u v) = u128_word u + u128_word v
   \<and> u128_word (u128_sub u v) = u128_word u - u128_word v
   \<and> u128_word (u128_mul u v) = u128_word u * u128_word v
   \<and> u128_word (u128_shl u n) = push_bit n (u128_word u)
   \<and> u128_word (u128_shr u n) = drop_bit n (u128_word u)
   \<and> (u128_less u v \<longleftrightarrow> u128_word u < u128_word v)"
  by (simp add: u128_word_mul)

text \<open>C10: for a divisor other than zero the shift-and-subtract division terminates and returns
  the quotient and the remainder.\<close>

theorem u128_divide_returns:
  assumes "u128_word d \<noteq> 0"
  shows "\<exists>q r. u128_divide n d = Inr (q, r) \<and> u128_word q = u128_word n div u128_word d
    \<and> u128_word r = u128_word n mod u128_word d"
  using assms by (rule u128_divide_correct)

theorem u128_divide_returns_witness:
  "\<exists>q r. u128_divide \<lparr>u_hi = 1, u_lo = 7\<rparr> \<lparr>u_hi = 0, u_lo = 3\<rparr> = Inr (q, r)
    \<and> u128_word q = 6148914691236517207 \<and> u128_word r = 2"
  using u128_divide_returns[of "\<lparr>u_hi = 0, u_lo = 3\<rparr>" "\<lparr>u_hi = 1, u_lo = 7\<rparr>"]
  by (simp add: u128_word_def)


end
