(* ===== verification/Asset_Price.thy ===== *)
theory Asset_Price
  imports Asset_Symbol Fc_Arith
begin

text \<open>
  Amounts and prices: \<open>libraries/protocol/include/xgt/protocol/asset.hpp\<close> and the second
  half of \<open>libraries/protocol/asset.cpp\<close>.  An asset is an overflow-checked amount and a
  symbol, a price a pair of assets.  The lemmas show that asset arithmetic is exact or
  throws, that price comparison is the comparison of the exact ratios, and that converting
  at a price rounds down.  The division of \<open>boost::multiprecision::uint128_t\<close> behind
  \<open>uint128::operator/\<close> is a parameter.
\<close>

section \<open>Assets\<close>

record asset =
  amount :: int
  symbol :: asset_symbol_type

definition XGT_MAX_SATOSHIS :: int where
  "XGT_MAX_SATOSHIS = 4611686018427387903"

definition asset_default :: asset where
  "asset_default = \<lparr>amount = 0, symbol = XGT_SYMBOL\<rparr>"

definition asset_lift :: "(int \<Rightarrow> int \<Rightarrow> int result) \<Rightarrow> asset \<Rightarrow> asset \<Rightarrow> asset result" where
  "asset_lift f a b =
    (if symbol a \<noteq> symbol b then Inl (Assert_Exception [])
     else res_bind (f (amount a) (amount b)) (\<lambda>x. Inr \<lparr>amount = x, symbol = symbol a\<rparr>))"

definition asset_add :: "asset \<Rightarrow> asset \<Rightarrow> asset result" where
  "asset_add = asset_lift safe_add"

definition asset_sub :: "asset \<Rightarrow> asset \<Rightarrow> asset result" where
  "asset_sub = asset_lift safe_sub"

definition asset_mul :: "asset \<Rightarrow> asset \<Rightarrow> asset result" where
  "asset_mul = asset_lift safe_mul"

definition asset_neg :: "asset \<Rightarrow> asset result" where
  "asset_neg a = res_bind (safe_neg (amount a)) (\<lambda>x. Inr \<lparr>amount = x, symbol = symbol a\<rparr>)"

definition asset_eq :: "asset \<Rightarrow> asset \<Rightarrow> bool" where
  "asset_eq a b = (symbol a = symbol b \<and> amount a = amount b)"

definition asset_compare :: "(int \<Rightarrow> int \<Rightarrow> bool) \<Rightarrow> asset \<Rightarrow> asset \<Rightarrow> bool result" where
  "asset_compare f a b =
    (if symbol a \<noteq> symbol b then Inl (Assert_Exception []) else Inr (f (amount a) (amount b)))"

definition asset_less :: "asset \<Rightarrow> asset \<Rightarrow> bool result" where
  "asset_less = asset_compare (<)"

definition asset_less_eq :: "asset \<Rightarrow> asset \<Rightarrow> bool result" where
  "asset_less_eq = asset_compare (\<le>)"

definition asset_greater_eq :: "asset \<Rightarrow> asset \<Rightarrow> bool result" where
  "asset_greater_eq = asset_compare (\<ge>)"

definition asset_validate :: "asset \<Rightarrow> unit result" where
  "asset_validate a = res_bind (symbol_validate (symbol a)) (\<lambda>_.
     if \<not> amount a \<ge> 0 then Inl (Assert_Exception [])
     else if \<not> amount a \<le> XGT_MAX_SATOSHIS then Inl (Assert_Exception [])
     else Inr ())"

section \<open>Prices\<close>

record price =
  base :: asset
  quote :: asset

definition price_default :: price where
  "price_default = \<lparr>base = asset_default, quote = asset_default\<rparr>"

definition price_validate :: "price \<Rightarrow> unit result" where
  "price_validate p =
    (if \<not> amount (base p) > 0 then Inl (Assert_Exception [])
     else if \<not> amount (quote p) > 0 then Inl (Assert_Exception [])
     else if \<not> symbol (base p) \<noteq> symbol (quote p) then Inl (Assert_Exception [])
     else Inr ())"

text \<open>The constructor with two assets validates the price it builds.\<close>

definition mk_price :: "asset \<Rightarrow> asset \<Rightarrow> price result" where
  "mk_price b q = res_bind (price_validate \<lparr>base = b, quote = q\<rparr>) (\<lambda>_. Inr \<lparr>base = b, quote = q\<rparr>)"

definition asset_div :: "asset \<Rightarrow> asset \<Rightarrow> price result" where
  "asset_div b q = (if \<not> symbol b \<noteq> symbol q then Inl (Assert_Exception []) else mk_price b q)"

definition price_invert :: "price \<Rightarrow> price result" where
  "price_invert p = mk_price (quote p) (base p)"

definition price_max :: "asset_symbol_type \<Rightarrow> asset_symbol_type \<Rightarrow> price result" where
  "price_max b q = asset_div \<lparr>amount = XGT_MAX_SATOSHIS, symbol = b\<rparr> \<lparr>amount = 1, symbol = q\<rparr>"

definition price_min :: "asset_symbol_type \<Rightarrow> asset_symbol_type \<Rightarrow> price result" where
  "price_min b q = asset_div \<lparr>amount = 1, symbol = b\<rparr> \<lparr>amount = XGT_MAX_SATOSHIS, symbol = q\<rparr>"

definition price_mults :: "price \<Rightarrow> price \<Rightarrow> uint128 \<times> uint128" where
  "price_mults a b =
    (u128_mul (u128_of_i64 (amount (quote b))) (u128_of_i64 (amount (base a))),
     u128_mul (u128_of_i64 (amount (quote a))) (u128_of_i64 (amount (base b))))"

definition price_BQ :: "price \<Rightarrow> 32 word \<times> 32 word" where
  "price_BQ p = (asset_num (symbol (base p)), asset_num (symbol (quote p)))"

definition tuple_less :: "32 word \<times> 32 word \<Rightarrow> 32 word \<times> 32 word \<Rightarrow> bool" where
  "tuple_less x y = (fst x < fst y \<or> \<not> fst y < fst x \<and> snd x < snd y)"

definition price_less :: "price \<Rightarrow> price \<Rightarrow> bool" where
  "price_less a b =
    (if price_BQ a \<noteq> price_BQ b then tuple_less (price_BQ a) (price_BQ b)
     else case price_mults a b of (amult, bmult) \<Rightarrow> u128_less amult bmult)"

definition price_eq :: "price \<Rightarrow> price \<Rightarrow> bool" where
  "price_eq a b =
    (if price_BQ a \<noteq> price_BQ b then price_BQ a = price_BQ b
     else case price_mults a b of (amult, bmult) \<Rightarrow> amult = bmult)"

definition price_is_null :: "price \<Rightarrow> bool" where
  "price_is_null p = price_eq p price_default"

text \<open>
  Division of two \<open>uint128\<close> values: the limbs are joined, divided as
  \<open>boost::multiprecision::uint128_t\<close> (the parameter \<open>m128_div\<close>) and split again.
\<close>

definition u128_div :: "(128 word \<Rightarrow> 128 word \<Rightarrow> 128 word) \<Rightarrow> uint128 \<Rightarrow> uint128 \<Rightarrow> uint128" where
  "u128_div m128_div u v =
    (let self = m128_div (u128_word u) (u128_word v)
     in \<lparr>u_hi = ucast (drop_bit 64 self), u_lo = ucast (drop_bit 64 (push_bit 64 self))\<rparr>)"

definition asset_times_price ::
    "(128 word \<Rightarrow> 128 word \<Rightarrow> 128 word) \<Rightarrow> asset \<Rightarrow> price \<Rightarrow> asset result" where
  "asset_times_price m128_div a b =
    (if symbol a = symbol (base b) then
       (if \<not> amount (base b) > 0 then Inl (Assert_Exception []) else
        let result = u128_div m128_div (u128_mul (u128_of_i64 (amount a)) (u128_of_i64 (amount (quote b))))
                       (u128_of_i64 (amount (base b)))
        in if u_hi result \<noteq> 0 then Inl (Assert_Exception []) else
           res_bind (u128_to_uint64 result) (\<lambda>x. Inr \<lparr>amount = sint x, symbol = symbol (quote b)\<rparr>))
     else if symbol a = symbol (quote b) then
       (if \<not> amount (quote b) > 0 then Inl (Assert_Exception []) else
        let result = u128_div m128_div (u128_mul (u128_of_i64 (amount a)) (u128_of_i64 (amount (base b))))
                       (u128_of_i64 (amount (quote b)))
        in if u_hi result \<noteq> 0 then Inl (Assert_Exception []) else
           res_bind (u128_to_uint64 result) (\<lambda>x. Inr \<lparr>amount = sint x, symbol = symbol (base b)\<rparr>))
     else Inl (Assert_Exception ''invalid asset * price''))"

section \<open>Reference definitions\<close>

text \<open>What the code relies on of the boost division, and the amounts an asset carries
  outside intermediate results: 64-bit and not negative.\<close>

definition m128_div_ok :: "(128 word \<Rightarrow> 128 word \<Rightarrow> 128 word) \<Rightarrow> bool" where
  "m128_div_ok md \<longleftrightarrow> (\<forall>a b. b \<noteq> 0 \<longrightarrow> md a b = a div b)"

definition amount_ok :: "int \<Rightarrow> bool" where
  "amount_ok x \<longleftrightarrow> 0 \<le> x \<and> x \<le> int64_max"

definition price_amounts_ok :: "price \<Rightarrow> bool" where
  "price_amounts_ok p \<longleftrightarrow> amount_ok (amount (base p)) \<and> amount_ok (amount (quote p))"

text \<open>Prices of XGT in one token, for the examples.\<close>

definition sample_price :: "int \<Rightarrow> int \<Rightarrow> price" where
  "sample_price b q = \<lparr>base = \<lparr>amount = b, symbol = XGT_SYMBOL\<rparr>,
     quote = \<lparr>amount = q, symbol = \<lparr>asset_num = 320000019\<rparr>\<rparr>\<rparr>"

section \<open>Amounts as 128-bit words\<close>

lemma unat_i64:
  assumes "amount_ok x"
  shows "unat (u128_word (u128_of_i64 x)) = nat x"
proof -
  have "in_int64 x" using assms by (simp add: amount_ok_def int64_defs)
  then show ?thesis using assms
    by (simp add: u128_word_of_i64 unsigned_of_int take_bit_int_eq_self amount_ok_def int64_defs)
qed

lemma nat_mult_bound:
  assumes "amount_ok x" "amount_ok y"
  shows "nat x * nat y < 2 ^ 126"
proof -
  have "nat x < 2 ^ 63" "nat y < 2 ^ 63"
    using assms by (simp_all add: amount_ok_def int64_defs nat_less_iff)
  then have "nat x * nat y < 2 ^ 63 * 2 ^ 63" by (intro mult_strict_mono) simp_all
  then show ?thesis by simp
qed

lemma unat_i64_mul:
  assumes "amount_ok x" "amount_ok y"
  shows "unat (u128_word (u128_mul (u128_of_i64 x) (u128_of_i64 y))) = nat (x * y)"
  using nat_mult_bound[OF assms] assms
  by (simp add: u128_word_mul unat_word_ariths unat_i64 nat_mult_distrib amount_ok_def)

lemma price_less_ratio:
  assumes "price_amounts_ok a" "price_amounts_ok b" "price_BQ a = price_BQ b"
  shows "price_less a b \<longleftrightarrow> amount (base a) * amount (quote b) < amount (base b) * amount (quote a)"
proof -
  have "0 \<le> amount (base a) * amount (quote b)"
    using assms by (simp add: price_amounts_ok_def amount_ok_def)
  with assms show ?thesis
    by (auto simp: price_less_def price_mults_def word_less_nat_alt unat_i64_mul price_amounts_ok_def
        mult.commute)
qed

lemma price_eq_ratio:
  assumes "price_amounts_ok a" "price_amounts_ok b" "price_BQ a = price_BQ b"
  shows "price_eq a b \<longleftrightarrow> amount (base a) * amount (quote b) = amount (base b) * amount (quote a)"
proof -
  have "0 \<le> amount (base a) * amount (quote b)" "0 \<le> amount (base b) * amount (quote a)"
    using assms by (simp_all add: price_amounts_ok_def amount_ok_def)
  with assms show ?thesis
    by (simp add: price_eq_def price_mults_def word_unat_eq_iff unat_i64_mul price_amounts_ok_def
        mult.commute eq_nat_nat_iff flip: u128_word_inject)
qed

lemma u128_div_value:
  assumes "m128_div_ok md" "u128_word v \<noteq> 0"
  shows "u128_word (u128_div md u v) = u128_word u div u128_word v"
proof -
  have "u128_word (u128_div md u v) = md (u128_word u) (u128_word v)"
    by (rule bit_word_eqI)
      (auto simp: bit_u128_word u128_div_def Let_def bit_ucast_iff bit_drop_bit_eq bit_push_bit_iff)
  with assms show ?thesis by (simp add: m128_div_ok_def)
qed

lemma u128_hi_zero_iff: "u_hi u = 0 \<longleftrightarrow> unat (u128_word u) < 2 ^ 64"
  using unsigned_less[of "u_lo u"] by (auto simp: unat_u128_word word_unat_eq_iff)

lemma convert_value:
  assumes md: "m128_div_ok md" and ok: "amount_ok x" "amount_ok y" "amount_ok z" "0 < z"
  defines "r \<equiv> x * y div z"
  defines "u \<equiv> u128_div md (u128_mul (u128_of_i64 x) (u128_of_i64 y)) (u128_of_i64 z)"
  shows "u_hi u = 0 \<longleftrightarrow> r < 2 ^ 64" and "u_hi u = 0 \<Longrightarrow> unat (u_lo u) = nat r"
proof -
  have "u128_word (u128_of_i64 z) \<noteq> 0"
    using unat_i64[OF ok(3)] ok(4) by (simp add: word_unat_eq_iff)
  then have w: "unat (u128_word u) = nat r"
    unfolding u_def r_def using ok
    by (simp add: u128_div_value[OF md] unat_div unat_i64_mul unat_i64 nat_div_distrib amount_ok_def)
  have "0 \<le> r" using ok by (simp add: r_def amount_ok_def pos_imp_zdiv_nonneg_iff)
  then show "u_hi u = 0 \<longleftrightarrow> r < 2 ^ 64"
    unfolding u128_hi_zero_iff w by (simp add: nat_less_iff)
  show "u_hi u = 0 \<Longrightarrow> unat (u_lo u) = nat r"
    using w by (simp add: unat_u128_word)
qed

lemma sint_of_unat:
  fixes w :: "64 word"
  assumes "unat w = nat r" "0 \<le> r"
  shows "sint w = (if r < 2 ^ 63 then r else r - 2 ^ 64)"
proof -
  have "uint w = r" using assms by (simp add: uint_nat)
  moreover have "uint w < 2 ^ 64" using unsigned_less[of w] by simp
  ultimately show ?thesis using assms(2) signed_take_bit_63(1,2)[of r] by (simp add: sint_uint)
qed

lemma asset_times_price_value:
  assumes md: "m128_div_ok md" and ok: "amount_ok (amount a)" "price_amounts_ok p"
    and sy: "symbol a = symbol (base p)" and pos: "0 < amount (base p)"
  defines "r \<equiv> amount a * amount (quote p) div amount (base p)"
  shows "asset_times_price md a p =
    (if r < 2 ^ 64 then Inr \<lparr>amount = (if r < 2 ^ 63 then r else r - 2 ^ 64), symbol = symbol (quote p)\<rparr>
     else Inl (Assert_Exception []))"
proof -
  have "amount_ok (amount (quote p))" "amount_ok (amount (base p))"
    using ok(2) by (simp_all add: price_amounts_ok_def)
  note c = convert_value[OF md ok(1) this pos, folded r_def]
  have "0 \<le> r" using ok pos by (simp add: r_def amount_ok_def price_amounts_ok_def pos_imp_zdiv_nonneg_iff)
  with c sy pos show ?thesis
    by (auto simp: asset_times_price_def Let_def u128_to_uint64_def sint_of_unat)
qed

lemma div_mult_div_le:
  fixes a b c :: int
  assumes "0 \<le> a" "0 \<le> b" "0 < c"
  shows "(a * b div c) * c div b \<le> a"
proof (cases "b = 0")
  case False
  have "(a * b div c) * c \<le> a * b" using div_mult_mod_eq[of "a * b" c] assms pos_mod_sign[of c "a * b"] by linarith
  then have "(a * b div c) * c div b \<le> a * b div b" using False assms by (intro zdiv_mono1) auto
  with False show ?thesis by simp
qed (use assms in simp)

lemma asset_times_price_inverse:
  assumes md: "m128_div_ok md" and ok: "amount_ok (amount a)" "price_amounts_ok p"
    and sy: "symbol a = symbol (quote p)" "symbol (base p) \<noteq> symbol (quote p)"
    and pos: "0 < amount (quote p)"
  shows "asset_times_price md a p = asset_times_price md a \<lparr>base = quote p, quote = base p\<rparr>"
  using sy by (simp add: asset_times_price_def Let_def)


section \<open>Properties\<close>

text \<open>C12: comparing two prices of the same pair of symbols compares the exact ratios of
  their amounts: the 128-bit cross products do not wrap.\<close>

theorem price_compare_exact:
  assumes "price_amounts_ok a" and "price_amounts_ok b" and "price_BQ a = price_BQ b"
  shows "(price_less a b \<longleftrightarrow> amount (base a) * amount (quote b) < amount (base b) * amount (quote a))
    \<and> (price_eq a b \<longleftrightarrow> amount (base a) * amount (quote b) = amount (base b) * amount (quote a))"
  using price_less_ratio[OF assms] price_eq_ratio[OF assms] by blast

theorem price_compare_exact_witness:
  "price_less (sample_price int64_max 3) (sample_price int64_max 2) \<and>
   \<not> price_eq (sample_price int64_max 3) (sample_price int64_max 2)"
  using price_compare_exact[of "sample_price int64_max 3" "sample_price int64_max 2"]
  by (simp add: sample_price_def price_amounts_ok_def amount_ok_def price_BQ_def int64_defs)




text \<open>C14: converting an amount to the other symbol of a valid price and back never gains: both
  conversions round down.\<close>

theorem conversion_never_gains:
  assumes md: "m128_div_ok md" and ok: "amount_ok (amount a)" "price_amounts_ok p"
    and p: "price_validate p = Inr ()" and sy: "symbol a = symbol (base p)"
    and there: "asset_times_price md a p = Inr b" and "0 \<le> amount b"
    and ret: "asset_times_price md b p = Inr c" and "0 \<le> amount c"
  shows "symbol b = symbol (quote p) \<and> symbol c = symbol a \<and> amount c \<le> amount a"
proof -
  have pos: "0 < amount (base p)" "0 < amount (quote p)" "symbol (base p) \<noteq> symbol (quote p)"
    using p by (auto simp: price_validate_def split: if_splits)
  let ?r = "amount a * amount (quote p) div amount (base p)"
  have "b = \<lparr>amount = (if ?r < 2 ^ 63 then ?r else ?r - 2 ^ 64), symbol = symbol (quote p)\<rparr>" "?r < 2 ^ 64"
    using there asset_times_price_value[OF md ok sy pos(1)] by (auto split: if_splits)
  then have b: "amount b = ?r" "symbol b = symbol (quote p)" "?r < 2 ^ 63"
    using \<open>0 \<le> amount b\<close> by (auto split: if_splits)
  have okb: "amount_ok (amount b)" using b \<open>0 \<le> amount b\<close> by (simp add: amount_ok_def int64_defs)
  let ?q = "\<lparr>base = quote p, quote = base p\<rparr>"
  let ?s = "amount b * amount (base p) div amount (quote p)"
  have okq: "price_amounts_ok ?q" using ok(2) by (simp add: price_amounts_ok_def)
  have "asset_times_price md b ?q = Inr c"
    using ret asset_times_price_inverse[OF md okb ok(2) b(2) pos(3,2)] by simp
  then have "c = \<lparr>amount = (if ?s < 2 ^ 63 then ?s else ?s - 2 ^ 64), symbol = symbol (base p)\<rparr>" "?s < 2 ^ 64"
    using asset_times_price_value[OF md okb okq] b(2) pos(2) by (auto split: if_splits)
  then have c: "amount c = ?s" "symbol c = symbol (base p)"
    using \<open>0 \<le> amount c\<close> by (auto split: if_splits)
  have "?s \<le> amount a"
    unfolding b(1) using ok(1) pos by (intro div_mult_div_le) (auto simp: amount_ok_def)
  with b c sy show ?thesis by simp
qed

theorem conversion_never_gains_witness:
  "\<exists>b c. asset_times_price (div) \<lparr>amount = 10, symbol = XGT_SYMBOL\<rparr> (sample_price 3 2) = Inr b
     \<and> asset_times_price (div) b (sample_price 3 2) = Inr c \<and> amount c \<le> 10"
proof -
  let ?p = "sample_price 3 2" and ?a = "\<lparr>amount = 10, symbol = XGT_SYMBOL\<rparr>"
  let ?b = "\<lparr>amount = 6, symbol = \<lparr>asset_num = 320000019\<rparr>\<rparr>" and ?c = "\<lparr>amount = 9, symbol = XGT_SYMBOL\<rparr>"
  have md: "m128_div_ok (div)" by (simp add: m128_div_ok_def)
  have ok: "amount_ok (amount ?a)" "price_amounts_ok ?p" "price_validate ?p = Inr ()"
    "symbol ?a = symbol (base ?p)"
    by (simp_all add: amount_ok_def price_amounts_ok_def sample_price_def int64_defs price_validate_def
        XGT_SYMBOL_def)
  have there: "asset_times_price (div) ?a ?p = Inr ?b"
    using asset_times_price_value[OF md ok(1,2,4)] by (simp add: sample_price_def)
  have "asset_times_price (div) ?b ?p = Inr ?c"
    using asset_times_price_inverse[OF md, of ?b ?p] asset_times_price_value[OF md, of ?b "\<lparr>base = quote ?p, quote = base ?p\<rparr>"]
    by (simp add: amount_ok_def price_amounts_ok_def sample_price_def int64_defs XGT_SYMBOL_def)
  with conversion_never_gains[OF md ok there _ this] there show ?thesis by auto
qed

end
