(* ===== verification/Authority.thy ===== *)
theory Authority
  imports Xgt_Prelude "HOL-Library.List_Lexorder" "HOL-Library.Char_ord"
begin

text \<open>
  Authorities and signature checks: \<open>authority.cpp\<close>, \<open>sign_state.cpp\<close> and their headers in
  \<open>libraries/protocol\<close>.  An authority is a weighted threshold over keys and wallets; checking
  it follows the wallets recursively.  The lemmas show that a check that succeeds is backed by
  enough weight of signed keys and approved wallets, at every level, and that the number of
  authorities looked up stays within its limit.
\<close>

section \<open>Authorities\<close>

type_synonym wallet_name = string
type_synonym public_key = string
type_synonym weight_type = "16 word"

datatype classification = recovery_class | money_class | key_class | social_class

record authority =
  weight_threshold :: "32 word"
  wallet_auths :: "(wallet_name, weight_type) flat_map"
  key_auths :: "(public_key, weight_type) flat_map"

definition authority_default :: authority where
  "authority_default = \<lparr>weight_threshold = 0, wallet_auths = [], key_auths = []\<rparr>"

definition add_authority_key :: "public_key \<Rightarrow> weight_type \<Rightarrow> authority \<Rightarrow> authority" where
  "add_authority_key k w a = a\<lparr>key_auths := fm_update k w (key_auths a)\<rparr>"

definition add_authority_wallet :: "wallet_name \<Rightarrow> weight_type \<Rightarrow> authority \<Rightarrow> authority" where
  "add_authority_wallet k w a = a\<lparr>wallet_auths := fm_update k w (wallet_auths a)\<rparr>"

definition get_keys :: "authority \<Rightarrow> public_key list" where
  "get_keys a = map fst (key_auths a)"

fun sum_weights :: "64 word \<Rightarrow> ('k \<times> weight_type) list \<Rightarrow> 64 word" where
  "sum_weights acc [] = acc"
| "sum_weights acc ((k, w) # m) = sum_weights (acc + ucast w) m"

definition is_impossible :: "authority \<Rightarrow> bool" where
  "is_impossible a =
    (let auth_weights = sum_weights (sum_weights 0 (wallet_auths a)) (key_auths a)
     in auth_weights < ucast (weight_threshold a))"

definition num_auths :: "authority \<Rightarrow> nat" where
  "num_auths a = length (wallet_auths a) + length (key_auths a)"

definition authority_clear :: "authority \<Rightarrow> authority" where
  "authority_clear a = a\<lparr>wallet_auths := [], key_auths := []\<rparr>"

definition is_valid_wallet_name :: "wallet_name \<Rightarrow> bool" where
  "is_valid_wallet_name name = True"

definition authority_validate :: "authority \<Rightarrow> unit result" where
  "authority_validate a = fc_assert (list_all (\<lambda>item. is_valid_wallet_name (fst item)) (wallet_auths a)) []"

definition add_authority_wallets :: "wallet_name flat_set \<Rightarrow> authority \<Rightarrow> wallet_name flat_set" where
  "add_authority_wallets res a = fold (\<lambda>item. fs_insert (fst item)) (wallet_auths a) res"

section \<open>Signature states\<close>

text \<open>
  The function that fetches the authority of a wallet throws for an unknown wallet.  The depth
  of the recursion is counted down: \<open>Suc r\<close> stands for \<open>r + 1\<close> levels below \<open>max_recursion\<close>,
  and \<open>0\<close> for \<open>depth == max_recursion\<close>.
\<close>

type_synonym authority_getter = "wallet_name \<Rightarrow> authority result"

record sign_state =
  get_authority :: authority_getter
  available_keys :: "public_key flat_set"
  provided_signatures :: "(public_key, bool) flat_map"
  approved_by :: "wallet_name flat_set"
  max_recursion :: nat
  max_membership :: nat
  max_wallet_auths :: nat

definition XGT_MAX_SIG_CHECK_DEPTH :: nat where "XGT_MAX_SIG_CHECK_DEPTH = 2"
definition XGT_MAX_SIG_CHECK_WALLETS :: nat where "XGT_MAX_SIG_CHECK_WALLETS = 125"
definition XGT_MAX_AUTHORITY_MEMBERSHIP :: nat where "XGT_MAX_AUTHORITY_MEMBERSHIP = 40"

definition mk_sign_state :: "public_key flat_set \<Rightarrow> authority_getter \<Rightarrow> public_key flat_set \<Rightarrow> sign_state" where
  "mk_sign_state sigs a keys =
    \<lparr>get_authority = a, available_keys = keys,
     provided_signatures = fold (\<lambda>key. fm_update key False) sigs [],
     approved_by = fs_insert ''temp'' [],
     max_recursion = XGT_MAX_SIG_CHECK_DEPTH, max_membership = 2 ^ 32 - 1,
     max_wallet_auths = 2 ^ 32 - 1\<rparr>"

definition signed_by :: "public_key \<Rightarrow> sign_state \<Rightarrow> bool \<times> sign_state" where
  "signed_by k s = (case map_of (provided_signatures s) k of
      None \<Rightarrow> if k \<in> set (available_keys s)
              then (True, s\<lparr>provided_signatures := fm_update k True (provided_signatures s)\<rparr>)
              else (False, s)
    | Some _ \<Rightarrow> (True, s\<lparr>provided_signatures := fm_update k True (provided_signatures s)\<rparr>))"

text \<open>
  The loop over the keys either returns (\<open>Inl\<close> the answer) or falls through with the weight and
  the membership counted so far.
\<close>

fun check_keys :: "32 word \<Rightarrow> (public_key \<times> weight_type) list \<Rightarrow> 32 word \<Rightarrow> nat \<Rightarrow> sign_state
    \<Rightarrow> (bool + 32 word \<times> nat) \<times> sign_state" where
  "check_keys threshold [] total_weight membership s = (Inr (total_weight, membership), s)"
| "check_keys threshold ((k, w) # ks) total_weight membership s =
    (let (ok, s) = signed_by k s;
         total_weight = (if ok then total_weight + ucast w else total_weight)
     in if ok \<and> total_weight \<ge> threshold then (Inl True, s)
        else let membership = membership + 1
        in if max_membership s > 0 \<and> membership \<ge> max_membership s then (Inl False, s)
           else check_keys threshold ks total_weight membership s)"

type_synonym check_result = "(bool \<times> nat \<times> sign_state) result"

text \<open>
  One wallet of an authority: it counts when it is approved already or when its own authority
  checks out.  At the depth limit it is skipped, and at the limit on lookups the whole check
  returns false.
\<close>

datatype wallet_vote = Skip | Stop | Vote bool nat sign_state

definition vote_wallet :: "(authority \<Rightarrow> nat \<Rightarrow> sign_state \<Rightarrow> check_result) option
    \<Rightarrow> wallet_name \<Rightarrow> nat \<Rightarrow> sign_state \<Rightarrow> wallet_vote result" where
  "vote_wallet sub a count s =
    (if a \<in> set (approved_by s) then Inr (Vote True count s)
     else case sub of
       None \<Rightarrow> Inr Skip
     | Some check \<Rightarrow>
         if max_wallet_auths s > 0 \<and> count \<ge> max_wallet_auths s then Inr Stop
         else res_bind (get_authority s a) (\<lambda>auth.
              res_bind (check auth (count + 1) s) (\<lambda>(ok, count, s).
                if ok then Inr (Vote True count (s\<lparr>approved_by := fs_insert a (approved_by s)\<rparr>))
                else Inr (Vote False count s))))"

fun check_wallets :: "(authority \<Rightarrow> nat \<Rightarrow> sign_state \<Rightarrow> check_result) option \<Rightarrow> 32 word
    \<Rightarrow> (wallet_name \<times> weight_type) list \<Rightarrow> 32 word \<Rightarrow> nat \<Rightarrow> nat \<Rightarrow> sign_state \<Rightarrow> check_result" where
  "check_wallets sub threshold [] total_weight membership count s = Inr (total_weight \<ge> threshold, count, s)"
| "check_wallets sub threshold ((a, w) # ws) total_weight membership count s =
    res_bind (vote_wallet sub a count s) (\<lambda>vote. case vote of
      Skip \<Rightarrow> check_wallets sub threshold ws total_weight membership count s
    | Stop \<Rightarrow> Inr (False, count, s)
    | Vote ok count s \<Rightarrow>
        (let total_weight = (if ok then total_weight + ucast w else total_weight)
         in if ok \<and> total_weight \<ge> threshold then Inr (True, count, s)
            else let membership = membership + 1
            in if max_membership s > 0 \<and> membership \<ge> max_membership s then Inr (False, count, s)
               else check_wallets sub threshold ws total_weight membership count s))"

definition check_members :: "(authority \<Rightarrow> nat \<Rightarrow> sign_state \<Rightarrow> check_result) option
    \<Rightarrow> authority \<Rightarrow> nat \<Rightarrow> sign_state \<Rightarrow> check_result" where
  "check_members sub auth count s =
    (case check_keys (weight_threshold auth) (key_auths auth) 0 0 s of
       (Inl answer, s) \<Rightarrow> Inr (answer, count, s)
     | (Inr (total_weight, membership), s) \<Rightarrow>
         check_wallets sub (weight_threshold auth) (wallet_auths auth) total_weight membership count s)"

primrec check_authority_impl :: "nat \<Rightarrow> authority \<Rightarrow> nat \<Rightarrow> sign_state \<Rightarrow> check_result" where
  "check_authority_impl 0 = check_members None"
| "check_authority_impl (Suc r) = check_members (Some (check_authority_impl r))"

definition check_authority :: "authority \<Rightarrow> sign_state \<Rightarrow> (bool \<times> sign_state) result" where
  "check_authority auth s =
    res_bind (check_authority_impl (max_recursion s) auth 0 s) (\<lambda>(ok, count, s). Inr (ok, s))"

definition check_authority_id :: "wallet_name \<Rightarrow> sign_state \<Rightarrow> (bool \<times> sign_state) result" where
  "check_authority_id name s =
    (if name \<in> set (approved_by s) then Inr (True, s)
     else res_bind (get_authority s name) (\<lambda>auth.
          res_bind (check_authority_impl (max_recursion s) auth 1 s) (\<lambda>(ok, count, s). Inr (ok, s))))"

definition remove_unused_signatures :: "sign_state \<Rightarrow> bool \<times> sign_state" where
  "remove_unused_signatures s =
    (let remove_sigs = map fst (filter (\<lambda>sig. \<not> snd sig) (provided_signatures s))
     in (remove_sigs \<noteq> [],
         s\<lparr>provided_signatures := filter (\<lambda>sig. fst sig \<notin> set remove_sigs) (provided_signatures s)\<rparr>))"

section \<open>Reference definitions\<close>

text \<open>
  The keys a state accepts, the weight of the members of a set, and the abstract meaning of an
  authority: it is authorized when signed keys and wallets that are approved or authorized
  themselves reach the threshold, and authorized within a depth when the wallets are followed
  that many levels.
\<close>

definition signers :: "sign_state \<Rightarrow> public_key set" where
  "signers s = fst ` set (provided_signatures s) \<union> set (available_keys s)"

definition same_env :: "sign_state \<Rightarrow> sign_state \<Rightarrow> bool" where
  "same_env s s' \<longleftrightarrow> get_authority s' = get_authority s \<and> signers s' = signers s
     \<and> available_keys s' = available_keys s
     \<and> max_recursion s' = max_recursion s \<and> max_membership s' = max_membership s
     \<and> max_wallet_auths s' = max_wallet_auths s \<and> set (approved_by s) \<subseteq> set (approved_by s')"

definition weight_in :: "'k set \<Rightarrow> ('k \<times> weight_type) list \<Rightarrow> nat" where
  "weight_in K ws = sum_list (map (\<lambda>(k, w). if k \<in> K then unat w else 0) ws)"

inductive authorized :: "authority_getter \<Rightarrow> public_key set \<Rightarrow> wallet_name set \<Rightarrow> authority \<Rightarrow> bool"
  for get :: authority_getter and K :: "public_key set" and A :: "wallet_name set" where
  authorizedI: "(\<And>a. a \<in> W \<Longrightarrow> a \<in> A \<or> (\<exists>b. get a = Inr b \<and> authorized get K A b)) \<Longrightarrow>
    unat (weight_threshold auth) \<le> weight_in K (key_auths auth) + weight_in W (wallet_auths auth) \<Longrightarrow>
    authorized get K A auth"

definition bounded_membership :: "sign_state \<Rightarrow> bool" where
  "bounded_membership s \<longleftrightarrow> 0 < max_membership s \<and> max_membership s \<le> 65536"

definition weight_ok :: "sign_state \<Rightarrow> 32 word \<Rightarrow> nat \<Rightarrow> bool" where
  "weight_ok s t m \<longleftrightarrow> bounded_membership s \<and> unat t \<le> m * 65535 \<and> m < max_membership s"

definition approvals_ok :: "authority_getter \<Rightarrow> public_key set \<Rightarrow> wallet_name set \<Rightarrow> sign_state \<Rightarrow> bool" where
  "approvals_ok get K A s \<longleftrightarrow> get_authority s = get \<and> signers s = K \<and> bounded_membership s
     \<and> (\<forall>a\<in>set (approved_by s). a \<in> A \<or> (\<exists>b. get a = Inr b \<and> authorized get K A b))"

definition backed :: "authority_getter \<Rightarrow> public_key set \<Rightarrow> wallet_name set \<Rightarrow> wallet_name set" where
  "backed get K A = {a. a \<in> A \<or> (\<exists>b. get a = Inr b \<and> authorized get K A b)}"

definition check_sound :: "authority_getter \<Rightarrow> public_key set \<Rightarrow> wallet_name set
    \<Rightarrow> (authority \<Rightarrow> nat \<Rightarrow> sign_state \<Rightarrow> check_result) \<Rightarrow> bool" where
  "check_sound get K A check \<longleftrightarrow> (\<forall>auth count s ok count' s'. approvals_ok get K A s \<longrightarrow>
     check auth count s = Inr (ok, count', s') \<longrightarrow>
     approvals_ok get K A s' \<and> same_env s s' \<and> (ok \<longrightarrow> authorized get K A auth))"

definition count_bounded :: "(authority \<Rightarrow> nat \<Rightarrow> sign_state \<Rightarrow> check_result) \<Rightarrow> bool" where
  "count_bounded check \<longleftrightarrow> (\<forall>auth count s ok count' s'. 0 < max_wallet_auths s \<longrightarrow>
     check auth count s = Inr (ok, count', s') \<longrightarrow>
     max_wallet_auths s' = max_wallet_auths s \<and> count \<le> count' \<and> count' \<le> max count (max_wallet_auths s))"

primrec authorized_within :: "nat \<Rightarrow> authority_getter \<Rightarrow> public_key set \<Rightarrow> wallet_name set \<Rightarrow> authority \<Rightarrow> bool" where
  "authorized_within 0 get K A auth \<longleftrightarrow>
    unat (weight_threshold auth) \<le> weight_in K (key_auths auth) + weight_in A (wallet_auths auth)"
| "authorized_within (Suc r) get K A auth \<longleftrightarrow>
    unat (weight_threshold auth) \<le> weight_in K (key_auths auth)
      + weight_in (A \<union> {a. \<exists>b. get a = Inr b \<and> authorized_within r get K A b}) (wallet_auths auth)"

definition unlimited :: "authority_getter \<Rightarrow> public_key set \<Rightarrow> wallet_name set \<Rightarrow> sign_state \<Rightarrow> bool" where
  "unlimited get K A s \<longleftrightarrow> get_authority s = get \<and> signers s = K \<and> A \<subseteq> set (approved_by s)
     \<and> bounded_membership s \<and> max_wallet_auths s = 0
     \<and> (\<forall>a. \<exists>b. get a = Inr b \<and> num_auths b < max_membership s)"

definition check_complete :: "nat \<Rightarrow> authority_getter \<Rightarrow> public_key set \<Rightarrow> wallet_name set
    \<Rightarrow> (authority \<Rightarrow> nat \<Rightarrow> sign_state \<Rightarrow> check_result) \<Rightarrow> bool" where
  "check_complete r get K A check \<longleftrightarrow> (\<forall>auth count s. unlimited get K A s \<longrightarrow>
     num_auths auth < max_membership s \<longrightarrow>
     (\<exists>ok count' s'. check auth count s = Inr (ok, count', s') \<and> same_env s s'
        \<and> (authorized_within r get K A auth \<longrightarrow> ok)))"

definition votes :: "nat \<Rightarrow> authority_getter \<Rightarrow> public_key set \<Rightarrow> wallet_name set
    \<Rightarrow> (authority \<Rightarrow> nat \<Rightarrow> sign_state \<Rightarrow> check_result) option \<Rightarrow> wallet_name set" where
  "votes r get K A sub = (case sub of None \<Rightarrow> A
     | Some _ \<Rightarrow> A \<union> {a. \<exists>b. get a = Inr b \<and> authorized_within r get K A b})"

definition sample_authority :: authority where
  "sample_authority = \<lparr>weight_threshold = 2, wallet_auths = [(''bob'', 1)], key_auths = [(''k1'', 1)]\<rparr>"

definition sample_getter :: authority_getter where
  "sample_getter name = Inr \<lparr>weight_threshold = 1, wallet_auths = [], key_auths = [(''k2'', 1)]\<rparr>"

definition sample_state :: "nat \<Rightarrow> sign_state" where
  "sample_state wallets = (mk_sign_state [''k1'', ''k2''] sample_getter [])
     \<lparr>max_membership := XGT_MAX_AUTHORITY_MEMBERSHIP, max_wallet_auths := wallets\<rparr>"

section \<open>Soundness\<close>

lemma weight_in_simps [simp]:
  "weight_in K [] = 0" "weight_in K ((k, w) # ws) = (if k \<in> K then unat w else 0) + weight_in K ws"
  by (simp_all add: weight_in_def)

lemma same_env_refl [simp, intro]: "same_env s s"
  by (simp add: same_env_def)

lemma same_env_trans: "same_env s t \<Longrightarrow> same_env t u \<Longrightarrow> same_env s u"
  by (auto simp: same_env_def)

lemma signers_mark:
  "signers (s\<lparr>provided_signatures := fm_update k b (provided_signatures s)\<rparr>) = insert k (signers s)"
  by (simp add: signers_def set_fm_update_keys)

lemma signed_by_spec:
  assumes "signed_by k s = (ok, s')"
  shows "(ok \<longleftrightarrow> k \<in> signers s) \<and> same_env s s' \<and> approved_by s' = approved_by s"
proof -
  have "k \<in> signers s \<longleftrightarrow> map_of (provided_signatures s) k \<noteq> None \<or> k \<in> set (available_keys s)"
    by (auto simp: signers_def map_of_eq_None_iff)
  then show ?thesis using assms signers_mark[where k=k and s=s and b=True]
    by (cases "map_of (provided_signatures s) k")
      (auto simp: signed_by_def same_env_def insert_absorb split: if_splits)
qed

lemma add_weight:
  assumes "unat (t :: 32 word) \<le> m * 65535" "m < 65536"
  shows "unat (t + ucast (w :: weight_type)) = unat t + unat w \<and> unat t + unat w \<le> Suc m * 65535"
proof -
  have w: "unat w \<le> 65535" using unsigned_less[of w, where 'a=nat] by simp
  then have "unat t + unat w \<le> Suc m * 65535" using assms(1) by simp
  moreover have "Suc m * 65535 \<le> 65536 * 65535" using assms(2) by (intro mult_le_mono1) simp
  ultimately show ?thesis by (simp add: unat_word_ariths unat_ucast_up)
qed

lemma weight_ok_next:
  assumes "weight_ok s t m" "\<not> max_membership s \<le> Suc m"
  shows "weight_ok s t (Suc m)" "weight_ok s (t + ucast (w :: weight_type)) (Suc m)"
    "unat (t + ucast w) = unat t + unat w"
  using assms add_weight[of t m w] by (simp_all add: weight_ok_def bounded_membership_def)

lemma weight_ok_add:
  assumes "weight_ok s t m"
  shows "unat (t + ucast (w :: weight_type)) = unat t + unat w"
  using assms add_weight[of t m w] by (simp add: weight_ok_def bounded_membership_def)

lemma weight_ok_env: "same_env s s' \<Longrightarrow> weight_ok s' = weight_ok s"
  by (simp add: weight_ok_def same_env_def bounded_membership_def fun_eq_iff)

lemma check_keys_spec:
  assumes "check_keys threshold ks t m s = (res, s')" and "weight_ok s t m"
  shows "same_env s s' \<and> approved_by s' = approved_by s \<and>
    (case res of
       Inl ok \<Rightarrow> ok \<longrightarrow> unat threshold \<le> unat t + weight_in (signers s) ks
     | Inr (t', m') \<Rightarrow> weight_ok s t' m' \<and> unat t' = unat t + weight_in (signers s) ks)"
  using assms
proof (induction ks arbitrary: t m s)
  case (Cons kw ks)
  obtain k w where kw: "kw = (k, w)" by force
  obtain ok s1 where sb: "signed_by k s = (ok, s1)" by force
  note sp = signed_by_spec[OF sb]
  then have mm: "max_membership s1 = max_membership s" "signers s1 = signers s" "weight_ok s1 = weight_ok s"
    by (auto simp: same_env_def weight_ok_env)
  have mp: "0 < max_membership s" using Cons.prems(2) by (simp add: weight_ok_def)
  define t1 where "t1 = (if ok then t + ucast w else t)"
  have t1: "unat t1 = unat t + (if k \<in> signers s then unat w else 0)"
    using weight_ok_add[OF Cons.prems(2)] sp by (simp add: t1_def)
  have step: "check_keys threshold (kw # ks) t m s =
     (if ok \<and> threshold \<le> t1 then (Inl True, s1)
      else if max_membership s \<le> Suc m then (Inl False, s1)
      else check_keys threshold ks t1 (Suc m) s1)"
    using mp by (simp add: kw sb t1_def Let_def mm)
  consider (ret) "ok \<and> threshold \<le> t1" | (full) "\<not> (ok \<and> threshold \<le> t1)" "max_membership s \<le> Suc m"
    | (next_key) "\<not> (ok \<and> threshold \<le> t1)" "\<not> max_membership s \<le> Suc m" by blast
  then show ?case
  proof cases
    case ret
    then have "res = Inl True" "s' = s1" using Cons.prems(1) unfolding step by simp_all
    moreover have "unat threshold \<le> unat t1" using ret by (simp add: word_le_nat_alt)
    ultimately show ?thesis using t1 sp by (simp add: kw)
  next
    case full
    then have "res = Inl False" "s' = s1" using Cons.prems(1) unfolding step by auto
    with sp show ?thesis by simp
  next
    case next_key
    then have "check_keys threshold ks t1 (Suc m) s1 = (res, s')"
      using Cons.prems(1) unfolding step by auto
    moreover have "weight_ok s1 t1 (Suc m)"
      using weight_ok_next[OF Cons.prems(2) next_key(2)] mm by (simp add: t1_def)
    ultimately have "same_env s1 s' \<and> approved_by s' = approved_by s1 \<and>
      (case res of
         Inl ok \<Rightarrow> ok \<longrightarrow> unat threshold \<le> unat t1 + weight_in (signers s) ks
       | Inr (t', m') \<Rightarrow> weight_ok s t' m' \<and> unat t' = unat t1 + weight_in (signers s) ks)"
      using Cons.IH[of t1 "Suc m" s1, unfolded mm] mm by simp
    then show ?thesis using sp t1 same_env_trans[of s s1 s']
      by (auto simp: kw split: sum.splits)
  qed
qed auto

lemma approvals_ok_approve:
  assumes "approvals_ok get K A s" "get a = Inr b" "authorized get K A b"
  shows "approvals_ok get K A (s\<lparr>approved_by := fs_insert a (approved_by s)\<rparr>)
    \<and> same_env s (s\<lparr>approved_by := fs_insert a (approved_by s)\<rparr>)"
  using assms by (auto simp: approvals_ok_def signers_def bounded_membership_def same_env_def)

lemma vote_wallet_sound:
  assumes "vote_wallet sub a count s = Inr (Vote ok count' s')" and "approvals_ok get K A s"
    and "\<And>check. sub = Some check \<Longrightarrow> check_sound get K A check"
  shows "approvals_ok get K A s' \<and> same_env s s' \<and> (ok \<longrightarrow> a \<in> backed get K A)"
proof (cases "a \<in> set (approved_by s)")
  case True
  then show ?thesis using assms by (auto simp: vote_wallet_def approvals_ok_def backed_def)
next
  case False
  then obtain check auth s1 where c: "sub = Some check" "get_authority s a = Inr auth"
      "check auth (Suc count) s = Inr (ok, count', s1)"
      "s' = (if ok then s1\<lparr>approved_by := fs_insert a (approved_by s1)\<rparr> else s1)"
    using assms(1) by (auto simp: vote_wallet_def result_simps split: option.splits if_splits)
  then have s1: "approvals_ok get K A s1" "same_env s s1" "ok \<longrightarrow> authorized get K A auth"
    using assms(2,3) unfolding check_sound_def by blast+
  have "get a = Inr auth" using c(2) assms(2) by (simp add: approvals_ok_def)
  then show ?thesis using c(4) s1 approvals_ok_approve[OF s1(1)] same_env_trans
    by (auto simp: backed_def)
qed

lemma check_wallets_step:
  assumes "check_wallets sub threshold ((a, w) # ws) t m count s = Inr (ok, count', s')"
  obtains (skip) "vote_wallet sub a count s = Inr Skip"
      "check_wallets sub threshold ws t m count s = Inr (ok, count', s')"
    | (stop) "vote_wallet sub a count s = Inr Stop" "\<not> ok" "count' = count" "s' = s"
    | (finish) yes where "vote_wallet sub a count s = Inr (Vote yes count' s')"
      "ok \<longrightarrow> yes \<and> threshold \<le> t + ucast w"
    | (more) yes c1 s1 where "vote_wallet sub a count s = Inr (Vote yes c1 s1)"
      "\<not> (0 < max_membership s1 \<and> max_membership s1 \<le> Suc m)"
      "check_wallets sub threshold ws (if yes then t + ucast w else t) (Suc m) c1 s1 = Inr (ok, count', s')"
proof -
  obtain v where v: "vote_wallet sub a count s = Inr v"
    using assms by (cases "vote_wallet sub a count s") simp_all
  note step = assms[unfolded check_wallets.simps v res_bind.simps]
  show thesis
  proof (cases v)
    case Skip
    then show thesis using step v by (intro that(1)) simp_all
  next
    case Stop
    then show thesis using step v by (intro that(2)) simp_all
  next
    case (Vote yes c1 s1)
    let ?t = "if yes then t + ucast w else t"
    have "(if yes \<and> threshold \<le> ?t then Inr (True, c1, s1)
       else if 0 < max_membership s1 \<and> max_membership s1 \<le> Suc m then Inr (False, c1, s1)
       else check_wallets sub threshold ws ?t (Suc m) c1 s1) = Inr (ok, count', s')"
      using step unfolding Vote wallet_vote.case Let_def Suc_eq_plus1 by assumption
    then consider "yes" "threshold \<le> t + ucast w" "ok" "c1 = count'" "s1 = s'"
      | "\<not> ok" "c1 = count'" "s1 = s'"
      | "\<not> (0 < max_membership s1 \<and> max_membership s1 \<le> Suc m)"
        "check_wallets sub threshold ws ?t (Suc m) c1 s1 = Inr (ok, count', s')"
      by (auto split: if_splits)
    then show thesis
    proof cases
      case 1 then show thesis using v Vote by (intro that(3)[of yes]) simp_all
    next
      case 2 then show thesis using v Vote by (intro that(3)[of yes]) simp_all
    next
      case 3 then show thesis using v Vote by (intro that(4)[of yes c1 s1]) simp_all
    qed
  qed
qed

lemma check_wallets_sound:
  assumes "check_wallets sub threshold ws t m count s = Inr (ok, count', s')"
    and "approvals_ok get K A s" and "weight_ok s t m"
    and sub: "\<And>check. sub = Some check \<Longrightarrow> check_sound get K A check"
  shows "approvals_ok get K A s' \<and> same_env s s'
    \<and> (ok \<longrightarrow> unat threshold \<le> unat t + weight_in (backed get K A) ws)"
  using assms(1-3)
proof (induction ws arbitrary: t m count s)
  case Nil
  then show ?case by (auto simp: word_le_nat_alt)
next
  case (Cons aw ws)
  obtain a w where aw: "aw = (a, w)" by force
  have mp: "0 < max_membership s" using Cons.prems(3) by (simp add: weight_ok_def)
  have add: "unat (t + ucast w) = unat t + unat w" using weight_ok_add[OF Cons.prems(3)] .
  from Cons.prems(1)[unfolded aw] show ?case
  proof (cases rule: check_wallets_step)
    case skip
    then show ?thesis using Cons.IH[OF skip(2) Cons.prems(2,3)] by (auto simp: aw)
  next
    case stop
    then show ?thesis using Cons.prems(2) by simp
  next
    case (finish yes)
    then show ?thesis using vote_wallet_sound[OF finish(1) Cons.prems(2) sub] add
      by (auto simp: aw word_le_nat_alt)
  next
    case (more yes c1 s1)
    note v = vote_wallet_sound[OF more(1) Cons.prems(2) sub]
    then have mm: "max_membership s1 = max_membership s" by (simp add: same_env_def)
    with more(2) mp have nf: "\<not> max_membership s \<le> Suc m" by simp
    have "weight_ok s1 (if yes then t + ucast w else t) (Suc m)"
      using weight_ok_next(1)[OF Cons.prems(3) nf] weight_ok_next(2)[OF Cons.prems(3) nf, of w]
        weight_ok_env[of s s1] v by auto
    from Cons.IH[OF more(3) _ this] v add same_env_trans[of s s1 s'] show ?thesis
      by (auto simp: aw split: if_splits)
  qed
qed

lemma check_members_sound:
  assumes "\<And>check. sub = Some check \<Longrightarrow> check_sound get K A check"
  shows "check_sound get K A (check_members sub)"
  unfolding check_sound_def
proof (intro allI impI)
  fix auth count s ok count' s'
  assume ao: "approvals_ok get K A s" and r: "check_members sub auth count s = Inr (ok, count', s')"
  obtain res s1 where ck: "check_keys (weight_threshold auth) (key_auths auth) 0 0 s = (res, s1)" by force
  have wok: "weight_ok s 0 0" using ao by (auto simp: weight_ok_def approvals_ok_def bounded_membership_def)
  note k = check_keys_spec[OF ck wok]
  have K: "signers s = K" using ao by (simp add: approvals_ok_def)
  have ao1: "approvals_ok get K A s1" using ao k by (auto simp: approvals_ok_def same_env_def bounded_membership_def)
  show "approvals_ok get K A s' \<and> same_env s s' \<and> (ok \<longrightarrow> authorized get K A auth)"
  proof (cases res)
    case (Inl answer)
    then have "ok = answer" "s' = s1" using r ck by (auto simp: check_members_def)
    then show ?thesis using Inl k ao1 K authorized.intros[of "{}" A get K auth] by auto
  next
    case (Inr tm)
    obtain t m where tm: "tm = (t, m)" by force
    have cw: "check_wallets sub (weight_threshold auth) (wallet_auths auth) t m count s1 = Inr (ok, count', s')"
      using r ck Inr tm by (simp add: check_members_def)
    have "weight_ok s1 t m" "unat t = weight_in K (key_auths auth)"
      using k Inr tm weight_ok_env[of s s1] K by auto
    with check_wallets_sound[OF cw ao1 _ assms] k same_env_trans[of s s1 s']
      authorized.intros[of "backed get K A" A get K auth]
    show ?thesis by (auto simp: backed_def)
  qed
qed

lemma check_authority_impl_sound: "check_sound get K A (check_authority_impl r)"
  by (induction r) (auto intro!: check_members_sound)


section \<open>The number of lookups\<close>

lemma check_keys_limit:
  "check_keys threshold ks t m s = (res, s') \<Longrightarrow> max_wallet_auths s' = max_wallet_auths s"
proof (induction ks arbitrary: t m s)
  case (Cons kw ks)
  obtain k w ok s1 where kw: "kw = (k, w)" and sb: "signed_by k s = (ok, s1)" by (metis surj_pair)
  have "max_wallet_auths s1 = max_wallet_auths s" using signed_by_spec[OF sb] by (simp add: same_env_def)
  with Cons.prems Cons.IH[of _ "Suc m" s1] sb show ?case
    by (auto simp: kw Let_def split: if_splits)
qed simp

lemma vote_wallet_count:
  assumes "vote_wallet sub a count s = Inr (Vote ok count' s')" "0 < max_wallet_auths s"
    and "\<And>check. sub = Some check \<Longrightarrow> count_bounded check"
  shows "max_wallet_auths s' = max_wallet_auths s \<and> count \<le> count' \<and> count' \<le> max count (max_wallet_auths s)"
proof (cases "a \<in> set (approved_by s)")
  case True
  then show ?thesis using assms by (auto simp: vote_wallet_def)
next
  case False
  then obtain check auth s1 where c: "sub = Some check" "check auth (Suc count) s = Inr (ok, count', s1)"
      "count < max_wallet_auths s" "max_wallet_auths s' = max_wallet_auths s1"
    using assms(1,2) by (auto simp: vote_wallet_def result_simps split: option.splits if_splits)
  then have "max_wallet_auths s1 = max_wallet_auths s \<and> Suc count \<le> count' \<and> count' \<le> max (Suc count) (max_wallet_auths s)"
    using assms(2,3) unfolding count_bounded_def by blast
  with c(3,4) show ?thesis by auto
qed

lemma check_wallets_count:
  assumes "check_wallets sub threshold ws t m count s = Inr (ok, count', s')" "0 < max_wallet_auths s"
    and sub: "\<And>check. sub = Some check \<Longrightarrow> count_bounded check"
  shows "max_wallet_auths s' = max_wallet_auths s \<and> count \<le> count' \<and> count' \<le> max count (max_wallet_auths s)"
  using assms(1,2)
proof (induction ws arbitrary: t m count s)
  case (Cons aw ws)
  obtain a w where aw: "aw = (a, w)" by force
  from Cons.prems(1)[unfolded aw] show ?case
  proof (cases rule: check_wallets_step)
    case skip
    then show ?thesis using Cons.IH Cons.prems(2) by blast
  next
    case (finish yes)
    then show ?thesis using vote_wallet_count[OF finish(1) Cons.prems(2) sub] by blast
  next
    case (more yes c1 s1)
    note v = vote_wallet_count[OF more(1) Cons.prems(2) sub]
    with Cons.IH[OF more(3)] Cons.prems(2) show ?thesis by auto
  qed auto
qed auto

lemma check_members_count:
  assumes "\<And>check. sub = Some check \<Longrightarrow> count_bounded check"
  shows "count_bounded (check_members sub)"
  unfolding count_bounded_def
proof (intro allI impI)
  fix auth count s ok count' s'
  assume p: "0 < max_wallet_auths s" and r: "check_members sub auth count s = Inr (ok, count', s')"
  obtain res s1 where ck: "check_keys (weight_threshold auth) (key_auths auth) 0 0 s = (res, s1)" by force
  note l = check_keys_limit[OF ck]
  show "max_wallet_auths s' = max_wallet_auths s \<and> count \<le> count' \<and> count' \<le> max count (max_wallet_auths s)"
  proof (cases res)
    case (Inl answer)
    then show ?thesis using r ck l by (auto simp: check_members_def)
  next
    case (Inr tm)
    then have "check_wallets sub (weight_threshold auth) (wallet_auths auth) (fst tm) (snd tm) count s1
        = Inr (ok, count', s')"
      using r ck by (simp add: check_members_def split: prod.splits)
    from check_wallets_count[OF this _ assms] p l show ?thesis by simp
  qed
qed

lemma check_authority_impl_count: "count_bounded (check_authority_impl r)"
  by (induction r) (auto intro!: check_members_count)

section \<open>Completeness\<close>

lemma unlimited_env: "same_env s s' \<Longrightarrow> unlimited get K A s \<Longrightarrow> unlimited get K A s'"
  by (auto simp: unlimited_def same_env_def bounded_membership_def)

lemma same_env_approve: "same_env s (s\<lparr>approved_by := fs_insert a (approved_by s)\<rparr>)"
  by (auto simp: same_env_def signers_def)

lemma vote_wallet_complete:
  assumes "unlimited get K A s" and "\<And>check. sub = Some check \<Longrightarrow> check_complete r get K A check"
  shows "(vote_wallet sub a count s = Inr Skip \<and> a \<notin> votes r get K A sub) \<or>
    (\<exists>ok c1 s1. vote_wallet sub a count s = Inr (Vote ok c1 s1) \<and> same_env s s1
       \<and> (a \<in> votes r get K A sub \<longrightarrow> ok))"
proof (cases "a \<in> set (approved_by s)")
  case True
  then show ?thesis by (auto simp: vote_wallet_def)
next
  case na: False
  then have nA: "a \<notin> A" using assms(1) by (auto simp: unlimited_def)
  show ?thesis
  proof (cases sub)
    case None
    with na nA show ?thesis by (simp add: vote_wallet_def votes_def)
  next
    case (Some check)
    obtain b where b: "get a = Inr b" "num_auths b < max_membership s" "get_authority s a = Inr b"
      using assms(1) by (auto simp: unlimited_def)
    obtain ok c1 s1 where c: "check b (Suc count) s = Inr (ok, c1, s1)" "same_env s s1"
        "authorized_within r get K A b \<longrightarrow> ok"
      using assms(2)[OF Some] assms(1) b(2) unfolding check_complete_def by blast
    have "max_wallet_auths s = 0" using assms(1) by (simp add: unlimited_def)
    then have "vote_wallet sub a count s = Inr (Vote ok c1
        (if ok then s1\<lparr>approved_by := fs_insert a (approved_by s1)\<rparr> else s1))"
      using na Some b(3) c(1) by (simp add: vote_wallet_def)
    moreover have "a \<in> votes r get K A sub \<longrightarrow> ok"
      using nA Some b(1) c(3) by (simp add: votes_def)
    moreover have "same_env s (if ok then s1\<lparr>approved_by := fs_insert a (approved_by s1)\<rparr> else s1)"
      using c(2) same_env_trans[OF c(2) same_env_approve] by simp
    ultimately show ?thesis by blast
  qed
qed

lemma check_wallets_complete:
  assumes "unlimited get K A s" "weight_ok s t m" "m + length ws < max_membership s"
    and sub: "\<And>check. sub = Some check \<Longrightarrow> check_complete r get K A check"
  shows "\<exists>ok count' s'. check_wallets sub threshold ws t m count s = Inr (ok, count', s') \<and> same_env s s'
    \<and> (unat threshold \<le> unat t + weight_in (votes r get K A sub) ws \<longrightarrow> ok)"
  using assms(1-3)
proof (induction ws arbitrary: t m count s)
  case Nil
  then show ?case by (auto simp: word_le_nat_alt)
next
  case (Cons aw ws)
  obtain a w where aw: "aw = (a, w)" by force
  have add: "unat (t + ucast w) = unat t + unat w" using weight_ok_add[OF Cons.prems(2)] .
  consider (skip) "vote_wallet sub a count s = Inr Skip" "a \<notin> votes r get K A sub"
    | (vote) ok c1 s1 where "vote_wallet sub a count s = Inr (Vote ok c1 s1)" "same_env s s1"
        "a \<in> votes r get K A sub \<longrightarrow> ok"
    using vote_wallet_complete[OF Cons.prems(1) sub] by blast
  then show ?case
  proof cases
    case skip
    then show ?thesis using Cons.IH[OF Cons.prems(1,2)] Cons.prems(3) by (simp add: aw)
  next
    case (vote ok c1 s1)
    let ?t = "if ok then t + ucast w else t"
    have mm: "max_membership s1 = max_membership s" using vote(2) by (simp add: same_env_def)
    have nf: "\<not> max_membership s \<le> Suc m" using Cons.prems(3) by simp
    have "weight_ok s1 ?t (Suc m)"
      using weight_ok_next(1)[OF Cons.prems(2) nf] weight_ok_next(2)[OF Cons.prems(2) nf, of w]
        weight_ok_env[OF vote(2)] by auto
    then obtain ok' c' s' where ih: "check_wallets sub threshold ws ?t (Suc m) c1 s1 = Inr (ok', c', s')"
        "same_env s1 s'" "unat threshold \<le> unat ?t + weight_in (votes r get K A sub) ws \<longrightarrow> ok'"
      using Cons.IH[OF unlimited_env[OF vote(2) Cons.prems(1)], of ?t "Suc m" c1] Cons.prems(3) mm by auto
    have "check_wallets sub threshold (aw # ws) t m count s =
       (if ok \<and> threshold \<le> ?t then Inr (True, c1, s1) else Inr (ok', c', s'))"
      using vote(1) nf mm ih(1) by (simp add: aw Let_def)
    then show ?thesis using vote(2,3) ih(2,3) add same_env_trans[OF vote(2) ih(2)]
      by (cases ok) (auto simp: aw)
  qed
qed


lemma check_keys_room:
  assumes "check_keys threshold ks t m s = (res, s')" "m + length ks < max_membership s"
  shows "res = Inl True \<or> (\<exists>t'. res = Inr (t', m + length ks))"
  using assms
proof (induction ks arbitrary: t m s)
  case (Cons kw ks)
  obtain k w ok s1 where kw: "kw = (k, w)" and sb: "signed_by k s = (ok, s1)" by (metis surj_pair)
  have "max_membership s1 = max_membership s" using signed_by_spec[OF sb] by (simp add: same_env_def)
  then show ?case using Cons.prems Cons.IH[of _ "Suc m" s1] sb
    by (auto simp: kw Let_def split: if_splits)
qed auto

lemma check_members_complete:
  assumes "\<And>check. sub = Some check \<Longrightarrow> check_complete r get K A check"
    and "unlimited get K A s" and "num_auths auth < max_membership s"
  shows "\<exists>ok count' s'. check_members sub auth count s = Inr (ok, count', s') \<and> same_env s s'
    \<and> (unat (weight_threshold auth) \<le> weight_in K (key_auths auth)
         + weight_in (votes r get K A sub) (wallet_auths auth) \<longrightarrow> ok)"
proof -
  obtain res s1 where ck: "check_keys (weight_threshold auth) (key_auths auth) 0 0 s = (res, s1)" by force
  have wok: "weight_ok s 0 0" using assms(2) by (auto simp: weight_ok_def unlimited_def bounded_membership_def)
  note k = check_keys_spec[OF ck wok]
  have K: "signers s = K" using assms(2) by (simp add: unlimited_def)
  have mm: "max_membership s1 = max_membership s" using k by (simp add: same_env_def)
  consider "res = Inl True" | t where "res = Inr (t, length (key_auths auth))"
    using check_keys_room[OF ck] assms(3) by (auto simp: num_auths_def)
  then show ?thesis
  proof cases
    case 1
    then show ?thesis using ck k by (auto simp: check_members_def)
  next
    case (2 t)
    have "unlimited get K A s1" "weight_ok s1 t (length (key_auths auth))" "unat t = weight_in K (key_auths auth)"
      using 2 k K unlimited_env[of s s1] assms(2) weight_ok_env[of s s1] by auto
    with check_wallets_complete[of get K A s1 t "length (key_auths auth)" "wallet_auths auth" sub r
        "weight_threshold auth" count] assms(1,3) mm
    obtain ok c' s' where "check_wallets sub (weight_threshold auth) (wallet_auths auth) t
        (length (key_auths auth)) count s1 = Inr (ok, c', s')" "same_env s1 s'"
      "unat (weight_threshold auth) \<le> weight_in K (key_auths auth)
         + weight_in (votes r get K A sub) (wallet_auths auth) \<longrightarrow> ok"
      by (auto simp: num_auths_def add.commute)
    then show ?thesis using 2 ck k same_env_trans[of s s1 s'] by (auto simp: check_members_def)
  qed
qed

lemma check_authority_impl_complete: "check_complete r get K A (check_authority_impl r)"
proof (induction r)
  case 0
  show ?case unfolding check_complete_def
    using check_members_complete[of None 0 get K A] by (simp add: votes_def)
next
  case (Suc r)
  then show ?case unfolding check_complete_def[of "Suc r"]
    using check_members_complete[of "Some (check_authority_impl r)" r get K A] by (simp add: votes_def)
qed

lemma check_authority_id_sound:
  assumes "check_authority_id name s = Inr (True, s')" and "bounded_membership s"
  shows "name \<in> backed (get_authority s) (signers s) (set (approved_by s))"
proof (cases "name \<in> set (approved_by s)")
  case False
  then obtain auth c where "get_authority s name = Inr auth"
      "check_authority_impl (max_recursion s) auth 1 s = Inr (True, c, s')"
    using assms(1) by (auto simp: check_authority_id_def result_simps)
  moreover have "approvals_ok (get_authority s) (signers s) (set (approved_by s)) s"
    using assms(2) by (simp add: approvals_ok_def)
  ultimately show ?thesis
    using check_authority_impl_sound unfolding check_sound_def backed_def by blast
qed (simp add: backed_def)

lemma check_authority_sound:
  assumes "check_authority auth s = Inr (True, s')" and "bounded_membership s"
  shows "authorized (get_authority s) (signers s) (set (approved_by s)) auth"
proof -
  obtain c where "check_authority_impl (max_recursion s) auth 0 s = Inr (True, c, s')"
    using assms(1) by (auto simp: check_authority_def result_simps)
  moreover have "approvals_ok (get_authority s) (signers s) (set (approved_by s)) s"
    using assms(2) by (simp add: approvals_ok_def)
  ultimately show ?thesis using check_authority_impl_sound unfolding check_sound_def by blast
qed

lemma sample_state_facts:
  "bounded_membership (sample_state n)" "signers (sample_state n) = {''k1'', ''k2''}"
  "get_authority (sample_state n) = sample_getter" "approved_by (sample_state n) = [''temp'']"
  "max_wallet_auths (sample_state n) = n" "max_recursion (sample_state n) = 2"
  "max_membership (sample_state n) = 40"
  by (auto simp: sample_state_def mk_sign_state_def bounded_membership_def signers_def fs_insert_def
      set_fm_update_keys XGT_MAX_AUTHORITY_MEMBERSHIP_def XGT_MAX_SIG_CHECK_DEPTH_def)

section \<open>Properties\<close>

text \<open>C16: when the check of a wallet succeeds, the wallet is approved already or its authority is
  authorized: at every level the signed keys and the approved or authorized wallets reach the
  threshold.  The membership limit of the code keeps the 32-bit sum of the weights exact.\<close>

theorem sign_check_sound:
  assumes "check_authority_id name s = Inr (True, s')" and "bounded_membership s"
  shows "name \<in> backed (get_authority s) (signers s) (set (approved_by s))"
  using assms by (rule check_authority_id_sound)

theorem sign_check_sound_witness:
  "(\<exists>s'. check_authority_id ''alice'' (sample_state 125) = Inr (True, s'))
   \<and> ''alice'' \<in> backed sample_getter {''k1'', ''k2''} {''temp''}"
proof -
  obtain s' where "check_authority_id ''alice'' (sample_state 125) = Inr (True, s')"
    by (simp add: check_authority_id_def sample_state_facts sample_getter_def check_members_def
        numeral_2_eq_2 signed_by_def Let_def)
      (simp add: sample_state_def mk_sign_state_def)
  then show ?thesis using sign_check_sound[OF _ sample_state_facts(1)] by (auto simp: sample_state_facts)
qed





end
