(* ===== verification/Chainbase_Undo.thy ===== *)
theory Chainbase_Undo
  imports Xgt_Prelude
begin

text \<open>
  The object database: \<open>libraries/chainbase/include/chainbase/chainbase.hpp\<close> and
  \<open>src/chainbase.cpp\<close>.  A \<open>generic_index\<close> stores objects by identifier and keeps a stack of
  undo states, one per open session, from which a session can be undone, squashed into the one
  below or committed.  The abstract view is a store with a stack of full snapshots; the lemmas
  show that the undo records, which only hold the differences, implement it.

  A value is of any type.  The unique secondary keys of a multi-index are a parameter
  \<open>conflict\<close>: whether two stored values of different objects may not coexist.  The underlying
  container belongs to \<open>boost\<close> or \<open>mira\<close>; of it the model uses lookup, insertion,
  modification and erasure by identifier.
\<close>

section \<open>State\<close>

record 'v undo_state =
  old_values :: "(nat, 'v) flat_map"
  removed_values :: "(nat, 'v) flat_map"
  new_ids :: "nat flat_set"
  old_next_id :: nat
  undo_revision :: int

text \<open>The most recent undo state, the back of the deque, comes first in \<open>undo_stack\<close>.\<close>

record 'v generic_index =
  undo_stack :: "'v undo_state list"
  idx_revision :: int
  next_id :: nat
  indices :: "(nat, 'v) flat_map"

type_synonym 'v conflict = "'v \<Rightarrow> 'v \<Rightarrow> bool"

definition insertable :: "'v conflict \<Rightarrow> nat \<Rightarrow> 'v \<Rightarrow> (nat, 'v) flat_map \<Rightarrow> bool" where
  "insertable conflict i v m = list_all (\<lambda>(j, w). j = i \<or> \<not> conflict v w) m"

definition enabled :: "'v generic_index \<Rightarrow> bool" where
  "enabled g = (undo_stack g \<noteq> [])"

section \<open>Operations\<close>

definition map_head :: "('v undo_state \<Rightarrow> 'v undo_state) \<Rightarrow> 'v generic_index \<Rightarrow> 'v generic_index" where
  "map_head f g = (case undo_stack g of [] \<Rightarrow> g | head # rest \<Rightarrow> g\<lparr>undo_stack := f head # rest\<rparr>)"

definition head_on_modify :: "nat \<Rightarrow> 'v \<Rightarrow> 'v undo_state \<Rightarrow> 'v undo_state" where
  "head_on_modify i v head =
    (if i \<in> set (new_ids head) then head
     else if map_of (old_values head) i \<noteq> None then head
     else head\<lparr>old_values := fm_emplace i v (old_values head)\<rparr>)"

definition head_on_remove :: "nat \<Rightarrow> 'v \<Rightarrow> 'v undo_state \<Rightarrow> 'v undo_state" where
  "head_on_remove i v head =
    (if i \<in> set (new_ids head) then head\<lparr>new_ids := fs_erase i (new_ids head)\<rparr>
     else case map_of (old_values head) i of
       Some x \<Rightarrow> head\<lparr>removed_values := fm_emplace i x (removed_values head),
                      old_values := fm_erase i (old_values head)\<rparr>
     | None \<Rightarrow>
         if map_of (removed_values head) i \<noteq> None then head
         else head\<lparr>removed_values := fm_emplace i v (removed_values head)\<rparr>)"

definition head_on_create :: "nat \<Rightarrow> 'v undo_state \<Rightarrow> 'v undo_state" where
  "head_on_create i head = head\<lparr>new_ids := fs_insert i (new_ids head)\<rparr>"

definition on_modify :: "nat \<Rightarrow> 'v \<Rightarrow> 'v generic_index \<Rightarrow> 'v generic_index" where
  "on_modify i v = map_head (head_on_modify i v)"

definition on_remove :: "nat \<Rightarrow> 'v \<Rightarrow> 'v generic_index \<Rightarrow> 'v generic_index" where
  "on_remove i v = map_head (head_on_remove i v)"

definition on_create :: "nat \<Rightarrow> 'v generic_index \<Rightarrow> 'v generic_index" where
  "on_create i = map_head (head_on_create i)"

definition emplace :: "'v conflict \<Rightarrow> 'v \<Rightarrow> 'v generic_index \<Rightarrow> (nat \<times> 'v generic_index) result" where
  "emplace conflict v g =
    (let new_id = next_id g in
     if map_of (indices g) new_id \<noteq> None \<or> \<not> insertable conflict new_id v (indices g)
     then Inl (Logic_Error ''could not insert object, most likely a uniqueness constraint was violated'')
     else let g = g\<lparr>indices := fm_update new_id v (indices g), next_id := new_id + 1\<rparr>
          in Inr (new_id, on_create new_id g))"

text \<open>\<open>modify\<close> and \<open>remove\<close> take a reference to a stored object; the model takes its
  identifier, and an identifier that is not stored is an error.\<close>

definition modify :: "'v conflict \<Rightarrow> nat \<Rightarrow> ('v \<Rightarrow> 'v) \<Rightarrow> 'v generic_index \<Rightarrow> 'v generic_index result" where
  "modify conflict i m g = (case map_of (indices g) i of
      None \<Rightarrow> Inl Out_Of_Range_Exception
    | Some v \<Rightarrow>
        let g = on_modify i v g in
        if \<not> insertable conflict i (m v) (indices g)
        then Inl (Logic_Error ''Could not modify object, most likely a uniqueness constraint was violated'')
        else Inr (g\<lparr>indices := fm_update i (m v) (indices g)\<rparr>))"

definition remove :: "nat \<Rightarrow> 'v generic_index \<Rightarrow> 'v generic_index result" where
  "remove i g = (case map_of (indices g) i of
      None \<Rightarrow> Inl Out_Of_Range_Exception
    | Some v \<Rightarrow> let g = on_remove i v g in Inr (g\<lparr>indices := fm_erase i (indices g)\<rparr>))"

definition find_obj :: "nat \<Rightarrow> 'v generic_index \<Rightarrow> 'v option" where
  "find_obj i g = map_of (indices g) i"

definition get_obj :: "nat \<Rightarrow> 'v generic_index \<Rightarrow> 'v result" where
  "get_obj i g = res_of_option Out_Of_Range_Exception (find_obj i g)"

definition start_undo_session :: "'v generic_index \<Rightarrow> 'v generic_index" where
  "start_undo_session g =
    (let r = idx_revision g + 1
     in g\<lparr>idx_revision := r,
          undo_stack := \<lparr>old_values = [], removed_values = [], new_ids = [],
                         old_next_id = next_id g, undo_revision = r\<rparr> # undo_stack g\<rparr>)"

definition restore_old :: "'v conflict \<Rightarrow> nat \<times> 'v \<Rightarrow> (nat, 'v) flat_map \<Rightarrow> (nat, 'v) flat_map result" where
  "restore_old conflict item m = (case item of (i, v) \<Rightarrow>
    if insertable conflict i v m then Inr (fm_update i v m)
    else Inl (Logic_Error ''Could not modify object, most likely a uniqueness constraint was violated''))"

text \<open>Erasing the end iterator is undefined; the model makes it an error.\<close>

definition erase_new :: "nat \<Rightarrow> (nat, 'v) flat_map \<Rightarrow> (nat, 'v) flat_map result" where
  "erase_new i m = (if map_of m i = None then Inl (Logic_Error ''erase of the end iterator'')
     else Inr (fm_erase i m))"

definition restore_removed :: "'v conflict \<Rightarrow> nat \<times> 'v \<Rightarrow> (nat, 'v) flat_map \<Rightarrow> (nat, 'v) flat_map result" where
  "restore_removed conflict item m = (case item of (i, v) \<Rightarrow>
    if map_of m i = None \<and> insertable conflict i v m then Inr (fm_update i v m)
    else Inl (Logic_Error ''Could not restore object, most likely a uniqueness constraint was violated''))"

definition undo :: "'v conflict \<Rightarrow> 'v generic_index \<Rightarrow> 'v generic_index result" where
  "undo conflict g = (case undo_stack g of
      [] \<Rightarrow> Inr g
    | head # rest \<Rightarrow>
        res_bind (res_fold (restore_old conflict) (old_values head) (indices g)) (\<lambda>m.
        res_bind (res_fold erase_new (new_ids head) m) (\<lambda>m.
        res_bind (res_fold (restore_removed conflict) (removed_values head) m) (\<lambda>m.
          Inr (g\<lparr>indices := m, next_id := old_next_id head, undo_stack := rest,
                 idx_revision := idx_revision g - 1\<rparr>)))))"

definition squash_old :: "nat \<times> 'v \<Rightarrow> 'v undo_state \<Rightarrow> 'v undo_state" where
  "squash_old item prev = (case item of (i, v) \<Rightarrow>
    if i \<in> set (new_ids prev) then prev
    else if map_of (old_values prev) i \<noteq> None then prev
    else prev\<lparr>old_values := fm_emplace i v (old_values prev)\<rparr>)"

definition squash_new :: "nat \<Rightarrow> 'v undo_state \<Rightarrow> 'v undo_state" where
  "squash_new i prev = prev\<lparr>new_ids := fs_insert i (new_ids prev)\<rparr>"

definition squash_removed :: "nat \<times> 'v \<Rightarrow> 'v undo_state \<Rightarrow> 'v undo_state" where
  "squash_removed item prev = (case item of (i, v) \<Rightarrow>
    if i \<in> set (new_ids prev) then prev\<lparr>new_ids := fs_erase i (new_ids prev)\<rparr>
    else case map_of (old_values prev) i of
      Some x \<Rightarrow> prev\<lparr>removed_values := fm_emplace i x (removed_values prev),
                     old_values := fm_erase i (old_values prev)\<rparr>
    | None \<Rightarrow> prev\<lparr>removed_values := fm_emplace i v (removed_values prev)\<rparr>)"

definition merge_states :: "'v undo_state \<Rightarrow> 'v undo_state \<Rightarrow> 'v undo_state" where
  "merge_states state prev_state =
    fold squash_removed (removed_values state)
      (fold squash_new (new_ids state) (fold squash_old (old_values state) prev_state))"

definition squash :: "'v generic_index \<Rightarrow> 'v generic_index" where
  "squash g = (case undo_stack g of
      [] \<Rightarrow> g
    | [state] \<Rightarrow> g\<lparr>undo_stack := []\<rparr>
    | state # prev_state # rest \<Rightarrow>
        g\<lparr>undo_stack := merge_states state prev_state # rest, idx_revision := idx_revision g - 1\<rparr>)"

definition commit :: "int \<Rightarrow> 'v generic_index \<Rightarrow> 'v generic_index" where
  "commit r g = g\<lparr>undo_stack := rev (dropWhile (\<lambda>u. undo_revision u \<le> r) (rev (undo_stack g)))\<rparr>"

text \<open>The loop of \<open>undo_all\<close> runs once per undo state.\<close>

primrec undo_times :: "nat \<Rightarrow> 'v conflict \<Rightarrow> 'v generic_index \<Rightarrow> 'v generic_index result" where
  "undo_times 0 conflict g = Inr g"
| "undo_times (Suc n) conflict g = res_bind (undo conflict g) (undo_times n conflict)"

definition undo_all :: "'v conflict \<Rightarrow> 'v generic_index \<Rightarrow> 'v generic_index result" where
  "undo_all conflict g = undo_times (length (undo_stack g)) conflict g"

definition set_revision :: "int \<Rightarrow> 'v generic_index \<Rightarrow> 'v generic_index result" where
  "set_revision r g =
    (if undo_stack g \<noteq> [] then Inl (Logic_Error ''cannot set revision while there is an existing undo stack'')
     else Inr (g\<lparr>idx_revision := r\<rparr>))"

section \<open>The database\<close>

text \<open>\<open>database::_index_list\<close>: every index with the conflicts of its unique keys.  The values of
  the indexes are of one type here, the sum of the object types.\<close>

type_synonym 'v cb_database = "('v conflict \<times> 'v generic_index) list"

definition db_start_undo_session :: "'v cb_database \<Rightarrow> 'v cb_database" where
  "db_start_undo_session db = map (\<lambda>(cf, g). (cf, start_undo_session g)) db"

text \<open>A loop over \<open>_index_list\<close> that calls a member which may throw.\<close>

primrec db_each :: "('v conflict \<Rightarrow> 'v generic_index \<Rightarrow> 'v generic_index result) \<Rightarrow> 'v cb_database \<Rightarrow> 'v cb_database result" where
  "db_each f [] = Inr []"
| "db_each f (item # db) = res_bind (f (fst item) (snd item)) (\<lambda>g.
     res_bind (db_each f db) (\<lambda>db. Inr ((fst item, g) # db)))"

definition db_undo :: "'v cb_database \<Rightarrow> 'v cb_database result" where
  "db_undo = db_each undo"

definition db_undo_all :: "'v cb_database \<Rightarrow> 'v cb_database result" where
  "db_undo_all = db_each undo_all"

definition db_squash :: "'v cb_database \<Rightarrow> 'v cb_database" where
  "db_squash db = map (\<lambda>(cf, g). (cf, squash g)) db"

definition db_commit :: "int \<Rightarrow> 'v cb_database \<Rightarrow> 'v cb_database" where
  "db_commit r db = map (\<lambda>(cf, g). (cf, commit r g)) db"

definition db_revision :: "'v cb_database \<Rightarrow> int" where
  "db_revision db = (case db of [] \<Rightarrow> - 1 | item # _ \<Rightarrow> idx_revision (snd item))"

section \<open>Reference definitions\<close>

type_synonym 'v store_view = "(nat \<rightharpoonup> 'v) \<times> nat"

record 'v snapshots =
  current :: "'v store_view"
  saved :: "('v store_view \<times> int) list"

definition wf_undo :: "'v undo_state \<Rightarrow> bool" where
  "wf_undo u \<longleftrightarrow> fm_sorted (old_values u) \<and> fm_sorted (removed_values u) \<and> distinct (new_ids u)"

text \<open>\<open>undo_delta b c u\<close>: the record \<open>u\<close> holds exactly the changes from the view \<open>b\<close> to \<open>c\<close>.\<close>

definition undo_delta :: "'v store_view \<Rightarrow> 'v store_view \<Rightarrow> 'v undo_state \<Rightarrow> bool" where
  "undo_delta b c u \<longleftrightarrow> wf_undo u \<and> old_next_id u = snd b \<and> snd b \<le> snd c
     \<and> dom (fst b) \<subseteq> {..<snd b} \<and> dom (fst c) \<subseteq> {..<snd c}
     \<and> (\<forall>i\<in>set (new_ids u). snd b \<le> i \<and> fst b i = None \<and> fst c i \<noteq> None
          \<and> map_of (old_values u) i = None \<and> map_of (removed_values u) i = None)
     \<and> (\<forall>i v. map_of (old_values u) i = Some v \<longrightarrow> fst b i = Some v \<and> fst c i \<noteq> None
          \<and> map_of (removed_values u) i = None)
     \<and> (\<forall>i v. map_of (removed_values u) i = Some v \<longrightarrow> fst b i = Some v \<and> fst c i = None)
     \<and> (\<forall>i. i \<notin> set (new_ids u) \<longrightarrow> map_of (old_values u) i = None \<longrightarrow>
          map_of (removed_values u) i = None \<longrightarrow> fst c i = fst b i)"

fun delta_chain :: "'v store_view \<Rightarrow> 'v undo_state list \<Rightarrow> ('v store_view \<times> int) list \<Rightarrow> bool" where
  "delta_chain c [] bs \<longleftrightarrow> bs = []"
| "delta_chain c (u # us) bs \<longleftrightarrow> (case bs of [] \<Rightarrow> False
    | (b, r) # bs \<Rightarrow> undo_delta b c u \<and> r = undo_revision u \<and> delta_chain b us bs)"

definition represents :: "'v generic_index \<Rightarrow> 'v snapshots \<Rightarrow> bool" where
  "represents g a \<longleftrightarrow> current a = (map_of (indices g), next_id g) \<and> fm_sorted (indices g)
     \<and> dom (map_of (indices g)) \<subseteq> {..<next_id g}
     \<and> delta_chain (current a) (undo_stack g) (saved a)"


definition undo_base :: "'v store_view \<Rightarrow> 'v undo_state \<Rightarrow> 'v store_view" where
  "undo_base c u =
    ((\<lambda>i. if i \<in> set (new_ids u) then None else (fst c ++ map_of (old_values u)) i)
       ++ map_of (removed_values u), old_next_id u)"

fun history_of :: "'v store_view \<Rightarrow> 'v undo_state list \<Rightarrow> ('v store_view \<times> int) list" where
  "history_of c [] = []"
| "history_of c (u # us) = (let b = undo_base c u in (b, undo_revision u) # history_of b us)"

definition abs_index :: "'v generic_index \<Rightarrow> 'v snapshots" where
  "abs_index g = (let c = (map_of (indices g), next_id g)
     in \<lparr>current = c, saved = history_of c (undo_stack g)\<rparr>)"

definition index_inv :: "'v generic_index \<Rightarrow> bool" where
  "index_inv g \<longleftrightarrow> represents g (abs_index g)"

definition snap_put :: "nat \<Rightarrow> 'v \<Rightarrow> 'v snapshots \<Rightarrow> 'v snapshots" where
  "snap_put i v a = a\<lparr>current := ((fst (current a))(i \<mapsto> v), snd (current a))\<rparr>"

definition snap_create :: "'v \<Rightarrow> 'v snapshots \<Rightarrow> 'v snapshots" where
  "snap_create v a = a\<lparr>current := ((fst (current a))(snd (current a) \<mapsto> v), snd (current a) + 1)\<rparr>"

definition snap_remove :: "nat \<Rightarrow> 'v snapshots \<Rightarrow> 'v snapshots" where
  "snap_remove i a = a\<lparr>current := ((fst (current a))(i := None), snd (current a))\<rparr>"

definition snap_start :: "int \<Rightarrow> 'v snapshots \<Rightarrow> 'v snapshots" where
  "snap_start r a = a\<lparr>saved := (current a, r) # saved a\<rparr>"

definition snap_undo :: "'v snapshots \<Rightarrow> 'v snapshots" where
  "snap_undo a = (case saved a of [] \<Rightarrow> a | (b, r) # bs \<Rightarrow> \<lparr>current = b, saved = bs\<rparr>)"

definition snap_squash :: "'v snapshots \<Rightarrow> 'v snapshots" where
  "snap_squash a = (case saved a of [] \<Rightarrow> a | [b] \<Rightarrow> a\<lparr>saved := []\<rparr>
     | b1 # b2 # bs \<Rightarrow> a\<lparr>saved := b2 # bs\<rparr>)"

definition snap_commit :: "int \<Rightarrow> 'v snapshots \<Rightarrow> 'v snapshots" where
  "snap_commit r a = a\<lparr>saved := rev (dropWhile (\<lambda>b. snd b \<le> r) (rev (saved a)))\<rparr>"

datatype 'v db_op = Create 'v | Modify nat "'v \<Rightarrow> 'v" | Remove nat | Start | Undo | Squash | Commit int

fun run_op :: "'v conflict \<Rightarrow> 'v db_op \<Rightarrow> 'v generic_index \<Rightarrow> 'v generic_index result" where
  "run_op cf (Create v) g = res_bind (emplace cf v g) (\<lambda>(i, g). Inr g)"
| "run_op cf (Modify i f) g = modify cf i f g"
| "run_op cf (Remove i) g = remove i g"
| "run_op cf Start g = Inr (start_undo_session g)"
| "run_op cf Undo g = undo cf g"
| "run_op cf Squash g = Inr (squash g)"
| "run_op cf (Commit r) g = Inr (commit r g)"

text \<open>The revision a session starts with is the only thing the snapshots take from the index.\<close>

fun snap_op :: "'v generic_index \<Rightarrow> 'v db_op \<Rightarrow> 'v snapshots \<Rightarrow> 'v snapshots" where
  "snap_op g (Create v) a = snap_create v a"
| "snap_op g (Modify i f) a = (case fst (current a) i of None \<Rightarrow> a | Some v \<Rightarrow> snap_put i (f v) a)"
| "snap_op g (Remove i) a = snap_remove i a"
| "snap_op g Start a = snap_start (idx_revision g + 1) a"
| "snap_op g Undo a = snap_undo a"
| "snap_op g Squash a = snap_squash a"
| "snap_op g (Commit r) a = snap_commit r a"

text \<open>The operations of one session: they change the objects and leave the sessions below alone.\<close>

fun is_object_op :: "'v db_op \<Rightarrow> bool" where
  "is_object_op (Create v) = True"
| "is_object_op (Modify i f) = True"
| "is_object_op (Remove i) = True"
| "is_object_op _ = False"

definition from_views :: "'v store_view \<Rightarrow> 'v store_view \<Rightarrow> (nat, 'v) flat_map \<Rightarrow> bool" where
  "from_views b c m \<longleftrightarrow> fm_sorted m
     \<and> (\<forall>i v. map_of m i = Some v \<longrightarrow> fst b i = Some v \<or> fst c i = Some v)"

definition compatible :: "'v conflict \<Rightarrow> 'v store_view \<Rightarrow> 'v store_view \<Rightarrow> bool" where
  "compatible cf b c \<longleftrightarrow> (\<forall>i j v w. i \<noteq> j \<longrightarrow> (fst b i = Some v \<or> fst c i = Some v) \<longrightarrow>
     (fst b j = Some w \<or> fst c j = Some w) \<longrightarrow> \<not> cf v w)"

definition index_view :: "'v generic_index \<Rightarrow> 'v store_view" where
  "index_view g = current (abs_index g)"

definition index_history :: "'v generic_index \<Rightarrow> 'v store_view list" where
  "index_history g = map fst (saved (abs_index g))"

definition db_view :: "'v cb_database \<Rightarrow> 'v store_view list" where
  "db_view db = map (index_view \<circ> snd) db"

definition db_depth :: "'v cb_database \<Rightarrow> nat" where
  "db_depth db = (case db of [] \<Rightarrow> 0 | item # _ \<Rightarrow> length (undo_stack (snd item)))"

definition db_history :: "'v cb_database \<Rightarrow> 'v store_view list list" where
  "db_history db = map (\<lambda>k. map (\<lambda>item. index_history (snd item) ! k) db) [0..<db_depth db]"

definition db_inv :: "'v cb_database \<Rightarrow> bool" where
  "db_inv db \<longleftrightarrow> db \<noteq> [] \<and>
    (\<forall>item\<in>set db. index_inv (snd item) \<and> length (undo_stack (snd item)) = db_depth db)"

definition db_run_op :: "nat \<times> 'v db_op \<Rightarrow> 'v cb_database \<Rightarrow> 'v cb_database result" where
  "db_run_op step db = (case step of (k, op) \<Rightarrow>
     if k < length db then res_bind (run_op (fst (db ! k)) op (snd (db ! k))) (\<lambda>g. Inr (db[k := (fst (db ! k), g)]))
     else Inl Out_Of_Range_Exception)"

definition fresh_index :: "'v generic_index" where
  "fresh_index = \<lparr>undo_stack = [], idx_revision = 0, next_id = 0, indices = []\<rparr>"

definition sample_db :: "nat cb_database" where
  "sample_db = [((=), fresh_index), ((=), fresh_index)]"

section \<open>One undo state\<close>

lemma fm_sorted_emplace [simp]: "fm_sorted m \<Longrightarrow> fm_sorted (fm_emplace k v m)"
  by (simp add: fm_emplace_def fm_sorted_update)

lemma distinct_fs_insert [simp]: "distinct (fs_insert k s) = distinct s"
  by (simp add: fs_insert_def distinct_insort)

lemma distinct_fs_erase [simp]: "distinct s \<Longrightarrow> distinct (fs_erase k s)"
  by (simp add: fs_erase_def)

lemma undo_delta_create:
  assumes "undo_delta b c u" "i = snd c"
  shows "undo_delta b ((fst c)(i \<mapsto> v), i + 1) (head_on_create i u)"
proof -
  have ni: "fst c i = None" "fst b i = None" using assms by (auto simp: undo_delta_def)
  have no: "map_of (old_values u) i = None" "map_of (removed_values u) i = None"
    using assms ni by (auto simp: undo_delta_def not_None_eq[symmetric] simp del: not_None_eq)
  show ?thesis using assms ni no
    by (auto simp: undo_delta_def head_on_create_def wf_undo_def)
qed

lemma undo_delta_modify:
  assumes "undo_delta b c u" "fst c i = Some v"
  shows "undo_delta b ((fst c)(i \<mapsto> w), snd c) (head_on_modify i v u)"
proof -
  have r: "map_of (removed_values u) i = None" 
    using assms by (cases "map_of (removed_values u) i") (auto simp: undo_delta_def)
  show ?thesis using assms r
    by (auto simp: undo_delta_def head_on_modify_def wf_undo_def map_of_fm_emplace fm_sorted_update)
qed

lemma undo_delta_remove:
  assumes "undo_delta b c u" "fst c i = Some v"
  shows "undo_delta b ((fst c)(i := None), snd c) (head_on_remove i v u)"
proof -
  have r: "map_of (removed_values u) i = None"
    using assms by (cases "map_of (removed_values u) i") (auto simp: undo_delta_def)
  show ?thesis using assms r
    by (auto simp: undo_delta_def head_on_remove_def wf_undo_def map_of_fm_emplace fm_sorted_erase
      split: option.splits)
qed

lemma undo_delta_start:
  assumes "dom (fst c) \<subseteq> {..<snd c}"
  shows "undo_delta c c \<lparr>old_values = [], removed_values = [], new_ids = [], old_next_id = snd c, undo_revision = r\<rparr>"
  using assms by (simp add: undo_delta_def wf_undo_def fm_sorted_def)

section \<open>Undoing\<close>

lemma fm_sorted_Cons: "fm_sorted ((k, v) # m) \<Longrightarrow> fm_sorted m \<and> map_of m k = None"
  by (auto simp: fm_sorted_def map_of_eq_None_iff)

lemma restore_step_Inr [result_simps]:
  "restore_old cf (i, v) m = Inr m' \<longleftrightarrow> insertable cf i v m \<and> m' = fm_update i v m"
  "erase_new i m = Inr m' \<longleftrightarrow> map_of m i \<noteq> None \<and> m' = fm_erase i m"
  "restore_removed cf (i, v) m = Inr m' \<longleftrightarrow> map_of m i = None \<and> insertable cf i v m \<and> m' = fm_update i v m"
  by (auto simp: restore_old_def erase_new_def restore_removed_def)

lemma restore_old_fold:
  assumes "res_fold (restore_old cf) os m = Inr m'" "fm_sorted os" "fm_sorted m"
  shows "map_of m' = map_of m ++ map_of os \<and> fm_sorted m'"
  using assms
proof (induction os arbitrary: m)
  case (Cons e os)
  obtain i v where e: "e = (i, v)" by force
  from Cons.prems have r: "res_fold (restore_old cf) os (fm_update i v m) = Inr m'"
    by (auto simp: e result_simps)
  from Cons.IH[OF r] Cons.prems fm_sorted_Cons[of i v os] fm_sorted_update[of m i v]
  show ?case by (auto simp: e map_add_def fun_eq_iff split: option.splits)
qed simp

lemma erase_new_fold:
  assumes "res_fold erase_new is m = Inr m'" "fm_sorted m"
  shows "map_of m' = (\<lambda>i. if i \<in> set is then None else map_of m i) \<and> fm_sorted m'"
  using assms
proof (induction "is" arbitrary: m)
  case (Cons i "is")
  then have r: "res_fold erase_new is (fm_erase i m) = Inr m'"
    by (auto simp: result_simps)
  from Cons.IH[OF r] Cons.prems fm_sorted_erase[of m i] show ?case by (auto simp: fun_eq_iff)
qed simp

lemma restore_removed_fold:
  assumes "res_fold (restore_removed cf) rs m = Inr m'" "fm_sorted rs" "fm_sorted m"
  shows "map_of m' = map_of m ++ map_of rs \<and> fm_sorted m'"
  using assms
proof (induction rs arbitrary: m)
  case (Cons e rs)
  obtain i v where e: "e = (i, v)" by force
  from Cons.prems have r: "res_fold (restore_removed cf) rs (fm_update i v m) = Inr m'"
    by (auto simp: e result_simps)
  from Cons.IH[OF r] Cons.prems fm_sorted_Cons[of i v rs] fm_sorted_update[of m i v]
  show ?case by (auto simp: e map_add_def fun_eq_iff split: option.splits)
qed simp

lemma undo_delta_restores:
  assumes "undo_delta b c u"
  shows "(\<lambda>i. if i \<in> set (new_ids u) then None else (fst c ++ map_of (old_values u)) i)
    ++ map_of (removed_values u) = fst b"
proof
  fix i
  show "((\<lambda>i. if i \<in> set (new_ids u) then None else (fst c ++ map_of (old_values u)) i)
    ++ map_of (removed_values u)) i = fst b i"
    using assms by (auto simp: undo_delta_def map_add_def split: option.splits)
qed

lemma undo_restores:
  assumes "represents g a" "saved a = (b, r) # bs" "undo cf g = Inr g'"
  shows "represents g' \<lparr>current = b, saved = bs\<rparr>"
proof -
  obtain u us where us: "undo_stack g = u # us"
    using assms(1,2) by (cases "undo_stack g") (auto simp: represents_def)
  have d: "undo_delta b (current a) u" and ch: "delta_chain b us bs"
    using assms(1,2) us by (auto simp: represents_def)
  have wf: "fm_sorted (old_values u)" "fm_sorted (removed_values u)" "snd b = old_next_id u"
    "dom (fst b) \<subseteq> {..<snd b}"
    using d by (auto simp: undo_delta_def wf_undo_def)
  obtain m1 m2 m3 where m: "res_fold (restore_old cf) (old_values u) (indices g) = Inr m1"
      "res_fold erase_new (new_ids u) m1 = Inr m2" "res_fold (restore_removed cf) (removed_values u) m2 = Inr m3"
      and g': "g' = g\<lparr>indices := m3, next_id := old_next_id u, undo_stack := us, idx_revision := idx_revision g - 1\<rparr>"
    using assms(3) us by (auto simp: undo_def result_simps)
  have "fm_sorted (indices g)" using assms(1) by (simp add: represents_def)
  with restore_old_fold[OF m(1) wf(1)] have m1: "map_of m1 = map_of (indices g) ++ map_of (old_values u)" "fm_sorted m1"
    by auto
  with erase_new_fold[OF m(2)] have m2: "map_of m2 = (\<lambda>i. if i \<in> set (new_ids u) then None else map_of m1 i)" "fm_sorted m2"
    by auto
  with restore_removed_fold[OF m(3) wf(2)] have m3: "map_of m3 = map_of m2 ++ map_of (removed_values u)" "fm_sorted m3"
    by auto
  have c: "map_of (indices g) = fst (current a)" using assms(1) by (simp add: represents_def)
  have "map_of m3 = fst b" unfolding m3(1) m2(1) m1(1) c by (rule undo_delta_restores[OF d])
  then show ?thesis using g' m3 wf ch by (simp add: represents_def prod_eq_iff)
qed

section \<open>Squashing\<close>

lemma squash_old_fold:
  fixes p :: "'v undo_state" and os :: "(nat \<times> 'v) list"
  assumes "fm_sorted (old_values p)"
  defines "q \<equiv> fold squash_old os p"
  shows "new_ids q = new_ids p \<and> removed_values q = removed_values p \<and> old_next_id q = old_next_id p
    \<and> undo_revision q = undo_revision p \<and> fm_sorted (old_values q)
    \<and> map_of (old_values q) = (\<lambda>i. if i \<in> set (new_ids p) then map_of (old_values p) i
        else (map_of os ++ map_of (old_values p)) i)"
  using assms(1) unfolding q_def
proof (induction os arbitrary: p)
  case Nil
  then show ?case by (auto simp: fun_eq_iff)
next
  case (Cons e os)
  obtain i v where e: "e = (i, v)" by force
  have s: "fm_sorted (old_values (squash_old e p))"
    using Cons.prems by (simp add: squash_old_def e)
  show ?case using Cons.IH[OF s] Cons.prems
    by (auto simp: e squash_old_def map_of_fm_emplace fun_eq_iff map_add_def split: option.splits)
qed

lemma squash_new_fold:
  fixes p :: "'v undo_state" and "is" :: "nat list"
  defines "q \<equiv> fold squash_new is p"
  shows "old_values q = old_values p \<and> removed_values q = removed_values p \<and> old_next_id q = old_next_id p
    \<and> undo_revision q = undo_revision p \<and> set (new_ids q) = set (new_ids p) \<union> set is
    \<and> (distinct (new_ids p) \<longrightarrow> distinct (new_ids q))"
  unfolding q_def by (induction "is" arbitrary: p) (auto simp: squash_new_def)

lemma squash_removed_step:
  assumes "map_of (removed_values p) i = None"
  shows "set (new_ids (squash_removed (i, v) p)) = set (new_ids p) - {i}"
    "map_of (old_values (squash_removed (i, v) p)) =
       (if i \<in> set (new_ids p) then map_of (old_values p) else (map_of (old_values p))(i := None))"
    "map_of (removed_values (squash_removed (i, v) p)) =
       (if i \<in> set (new_ids p) then map_of (removed_values p)
        else (map_of (removed_values p))(i \<mapsto> (case map_of (old_values p) i of Some x \<Rightarrow> x | None \<Rightarrow> v)))"
    "old_next_id (squash_removed (i, v) p) = old_next_id p"
    "undo_revision (squash_removed (i, v) p) = undo_revision p"
    "wf_undo p \<Longrightarrow> wf_undo (squash_removed (i, v) p)"
  using assms
  by (auto simp: squash_removed_def map_of_fm_emplace wf_undo_def fm_sorted_erase fun_eq_iff split: option.splits)

lemma squash_removed_fold:
  fixes p :: "'v undo_state" and rs :: "(nat \<times> 'v) list"
  assumes "fm_sorted rs" "wf_undo p"
    "\<And>i. map_of rs i \<noteq> None \<Longrightarrow> map_of (removed_values p) i = None"
  defines "q \<equiv> fold squash_removed rs p"
  shows "wf_undo q \<and> old_next_id q = old_next_id p
    \<and> undo_revision q = undo_revision p \<and> set (new_ids q) = set (new_ids p) - dom (map_of rs)
    \<and> map_of (old_values q) = (\<lambda>i. if i \<in> dom (map_of rs) \<and> i \<notin> set (new_ids p) then None else map_of (old_values p) i)
    \<and> map_of (removed_values q) = (\<lambda>i. if i \<in> dom (map_of rs) \<and> i \<notin> set (new_ids p)
         then (map_of rs ++ map_of (old_values p)) i else map_of (removed_values p) i)"
  using assms(1-3) unfolding q_def
proof (induction rs arbitrary: p)
  case Nil
  then show ?case by auto
next
  case (Cons e rs)
  obtain i v where e: "e = (i, v)" by force
  have ri: "map_of (removed_values p) i = None" using Cons.prems(3)[of i] by (simp add: e)
  note st = squash_removed_step[OF ri, of v]
  have rs: "fm_sorted rs" "map_of rs i = None" using Cons.prems(1) fm_sorted_Cons[of i v rs] by (auto simp: e)
  have c3: "map_of (removed_values (squash_removed (i, v) p)) j = None" if "map_of rs j \<noteq> None" for j
  proof -
    have "j \<noteq> i" using that rs(2) by auto
    then show ?thesis using Cons.prems(3)[of j] that by (simp add: st e)
  qed
  note ih = Cons.IH[OF rs(1) st(6)[OF Cons.prems(2)] c3, unfolded st]
  have q: "fold squash_removed (e # rs) p = fold squash_removed rs (squash_removed (i, v) p)" by (simp add: e)
  have e1: "set (new_ids p) - {i} - dom (map_of rs) = set (new_ids p) - dom (map_of (e # rs))" by (auto simp: e)
  have e2: "(\<lambda>j. if j \<in> dom (map_of rs) \<and> j \<notin> set (new_ids p) - {i} then None
      else (if i \<in> set (new_ids p) then map_of (old_values p) else (map_of (old_values p))(i := None)) j)
    = (\<lambda>j. if j \<in> dom (map_of (e # rs)) \<and> j \<notin> set (new_ids p) then None else map_of (old_values p) j)"
    using rs(2) by (intro ext) (auto simp: e)
  have e3: "(\<lambda>j. if j \<in> dom (map_of rs) \<and> j \<notin> set (new_ids p) - {i}
      then (map_of rs ++ (if i \<in> set (new_ids p) then map_of (old_values p) else (map_of (old_values p))(i := None))) j
      else (if i \<in> set (new_ids p) then map_of (removed_values p) else (map_of (removed_values p))
        (i \<mapsto> (case map_of (old_values p) i of Some x \<Rightarrow> x | None \<Rightarrow> v))) j)
    = (\<lambda>j. if j \<in> dom (map_of (e # rs)) \<and> j \<notin> set (new_ids p)
      then (map_of (e # rs) ++ map_of (old_values p)) j else map_of (removed_values p) j)"
    using rs(2) ri by (intro ext) (auto simp: e map_add_def split: option.splits)
  show ?case using ih unfolding q e1 e2 e3 by blast
qed

lemma undo_revision_merge [simp]: "undo_revision (merge_states u1 u2) = undo_revision u2"
proof -
  have o: "undo_revision (fold squash_old os p) = undo_revision p" for os and p :: "'a undo_state"
    by (induction os arbitrary: p) (auto simp: squash_old_def split: prod.splits)
  have r: "undo_revision (fold squash_removed rs p) = undo_revision p" for rs and p :: "'a undo_state"
    by (induction rs arbitrary: p) (auto simp: squash_removed_def split: prod.splits option.splits)
  show ?thesis by (simp add: merge_states_def o r squash_new_fold)
qed

lemma merge_states_maps:
  assumes "wf_undo u1" "wf_undo u2"
    and disj: "\<forall>i. map_of (removed_values u1) i \<noteq> None \<longrightarrow> map_of (removed_values u2) i = None"
  defines "q \<equiv> merge_states u1 u2"
    and "O1 \<equiv> (\<lambda>i. if i \<in> set (new_ids u2) then map_of (old_values u2) i
               else (map_of (old_values u1) ++ map_of (old_values u2)) i)"
    and "N \<equiv> set (new_ids u2) \<union> set (new_ids u1)" and "R \<equiv> dom (map_of (removed_values u1))"
  shows "wf_undo q" "old_next_id q = old_next_id u2" "set (new_ids q) = N - R"
    "map_of (old_values q) = (\<lambda>i. if i \<in> R \<and> i \<notin> N then None else O1 i)"
    "map_of (removed_values q) = (\<lambda>i. if i \<in> R \<and> i \<notin> N
       then (map_of (removed_values u1) ++ O1) i else map_of (removed_values u2) i)"
proof -
  define p1 where "p1 = fold squash_old (old_values u1) u2"
  define p2 where "p2 = fold squash_new (new_ids u1) p1"
  have s2: "fm_sorted (old_values u2)" and s1: "fm_sorted (removed_values u1)"
    using assms(1,2) by (simp_all add: wf_undo_def)
  have o: "new_ids p1 = new_ids u2" "removed_values p1 = removed_values u2" "old_next_id p1 = old_next_id u2"
      "fm_sorted (old_values p1)" "map_of (old_values p1) = O1"
    using squash_old_fold[OF s2, of "old_values u1"] by (simp_all add: p1_def O1_def)
  have n: "old_values p2 = old_values p1" "removed_values p2 = removed_values u2" "old_next_id p2 = old_next_id u2"
      "set (new_ids p2) = N" "wf_undo p2"
    using squash_new_fold[of "new_ids u1" p1] o assms(2) by (simp_all add: p2_def N_def wf_undo_def)
  have q: "q = fold squash_removed (removed_values u1) p2"
    by (simp add: q_def merge_states_def p1_def p2_def)
  have "\<And>i. map_of (removed_values u1) i \<noteq> None \<Longrightarrow> map_of (removed_values p2) i = None"
    using disj by (simp add: n(2))
  note r = squash_removed_fold[OF s1 n(5) this, unfolded n(2,4) q[symmetric]]
  show "wf_undo q" "old_next_id q = old_next_id u2" "set (new_ids q) = N - R"
    "map_of (old_values q) = (\<lambda>i. if i \<in> R \<and> i \<notin> N then None else O1 i)"
    "map_of (removed_values q) = (\<lambda>i. if i \<in> R \<and> i \<notin> N
       then (map_of (removed_values u1) ++ O1) i else map_of (removed_values u2) i)"
    using r unfolding n(1,3) o(5) R_def by blast+
qed

lemma undo_deltaD:
  assumes "undo_delta b c u"
  shows "i \<in> set (new_ids u) \<Longrightarrow> snd b \<le> i \<and> fst b i = None \<and> fst c i \<noteq> None
          \<and> map_of (old_values u) i = None \<and> map_of (removed_values u) i = None"
    "map_of (old_values u) i = Some v \<Longrightarrow> fst b i = Some v \<and> fst c i \<noteq> None
          \<and> map_of (removed_values u) i = None"
    "map_of (removed_values u) i = Some v \<Longrightarrow> fst b i = Some v \<and> fst c i = None"
    "i \<notin> set (new_ids u) \<Longrightarrow> map_of (old_values u) i = None \<Longrightarrow>
          map_of (removed_values u) i = None \<Longrightarrow> fst c i = fst b i"
  using assms unfolding undo_delta_def by blast+

lemma undo_delta_cases:
  assumes "undo_delta b c u"
  obtains (New) "i \<in> set (new_ids u)" "map_of (old_values u) i = None" "map_of (removed_values u) i = None"
      "fst b i = None" "fst c i \<noteq> None" "snd b \<le> i"
    | (Upd) v where "i \<notin> set (new_ids u)" "map_of (old_values u) i = Some v" "map_of (removed_values u) i = None"
      "fst b i = Some v" "fst c i \<noteq> None"
    | (Del) v where "i \<notin> set (new_ids u)" "map_of (old_values u) i = None" "map_of (removed_values u) i = Some v"
      "fst b i = Some v" "fst c i = None"
    | (Nop) "i \<notin> set (new_ids u)" "map_of (old_values u) i = None" "map_of (removed_values u) i = None"
      "fst c i = fst b i"
proof (cases "i \<in> set (new_ids u)")
  case True
  then show thesis using undo_deltaD(1)[OF assms True] by (intro New) auto
next
  case nn: False
  show thesis
  proof (cases "map_of (old_values u) i")
    case (Some v)
    then show thesis using nn undo_deltaD(2)[OF assms Some] by (intro Upd) auto
  next
    case no: None
    show thesis
    proof (cases "map_of (removed_values u) i")
      case (Some v)
      then show thesis using nn no undo_deltaD(3)[OF assms Some] by (intro Del) auto
    next
      case None
      then show thesis using nn no undo_deltaD(4)[OF assms nn no None] by (intro Nop) auto
    qed
  qed
qed

lemma undo_delta_merge:
  assumes d1: "undo_delta b1 c u1" and d2: "undo_delta b2 b1 u2"
  shows "undo_delta b2 c (merge_states u1 u2)"
proof -
  have wf: "wf_undo u1" "wf_undo u2" using d1 d2 by (simp_all add: undo_delta_def)
  have "map_of (removed_values u2) i = None" if "map_of (removed_values u1) i \<noteq> None" for i
    by (rule undo_delta_cases[OF d1, of i]; rule undo_delta_cases[OF d2, of i]) (use that in auto)
  then have rem: "\<forall>i. map_of (removed_values u1) i \<noteq> None \<longrightarrow> map_of (removed_values u2) i = None" by blast
  have fresh: "fst b2 i = None" if "snd b1 \<le> i" for i
    using that d2 by (cases "fst b2 i") (auto simp: undo_delta_def)
  note m = merge_states_maps[OF wf rem]
  have le: "snd b2 \<le> snd b1" using d2 by (simp add: undo_delta_def)
  let ?q = "merge_states u1 u2"
  have pt: "(i \<in> set (new_ids ?q) \<longrightarrow> snd b2 \<le> i \<and> fst b2 i = None \<and> fst c i \<noteq> None
          \<and> map_of (old_values ?q) i = None \<and> map_of (removed_values ?q) i = None)
     \<and> (\<forall>v. map_of (old_values ?q) i = Some v \<longrightarrow> fst b2 i = Some v \<and> fst c i \<noteq> None
          \<and> map_of (removed_values ?q) i = None)
     \<and> (\<forall>v. map_of (removed_values ?q) i = Some v \<longrightarrow> fst b2 i = Some v \<and> fst c i = None)
     \<and> (i \<notin> set (new_ids ?q) \<longrightarrow> map_of (old_values ?q) i = None \<longrightarrow>
          map_of (removed_values ?q) i = None \<longrightarrow> fst c i = fst b2 i)" for i
    unfolding m(3-5)
    by (rule undo_delta_cases[OF d1, of i]; rule undo_delta_cases[OF d2, of i])
      (use fresh[of i] le in \<open>simp_all add: map_add_def domIff\<close>)
  show ?thesis unfolding undo_delta_def
    using pt m(1,2) d1 d2 by (auto simp: undo_delta_def)
qed

lemma undo_delta_base: "undo_delta b c u \<Longrightarrow> undo_base c u = b"
  using undo_delta_restores[of b c u] by (auto simp: undo_base_def undo_delta_def prod_eq_iff)

lemma delta_chain_history: "delta_chain c us bs \<Longrightarrow> bs = history_of c us"
  by (induction c us bs rule: delta_chain.induct)
    (auto simp: Let_def undo_delta_base split: list.splits prod.splits)

lemma represents_abs: "represents g a \<Longrightarrow> a = abs_index g \<and> index_inv g"
proof -
  assume r: "represents g a"
  then have "a = abs_index g"
    using delta_chain_history[of "current a" "undo_stack g" "saved a"]
    by (cases a) (auto simp: represents_def abs_index_def Let_def)
  with r show ?thesis by (simp add: index_inv_def)
qed

section \<open>Operations on snapshots\<close>

lemma represents_head:
  assumes "represents g a" "dom (map_of m) \<subseteq> {..<n}" "fm_sorted m"
    and "\<And>u b. undo_delta b (current a) u \<Longrightarrow> undo_delta b (map_of m, n) (f u)"
    and "\<And>u. undo_revision (f u) = undo_revision u"
  shows "represents (map_head f (g\<lparr>indices := m, next_id := n\<rparr>)) (a\<lparr>current := (map_of m, n)\<rparr>)"
  using assms
  by (cases "undo_stack g") (auto simp: represents_def map_head_def split: list.splits)

lemma emplace_refines:
  assumes "represents g a" "emplace cf v g = Inr (i, g')"
  shows "represents g' (snap_create v a)" "i = snd (current a)"
proof -
  have c: "current a = (map_of (indices g), next_id g)" using assms(1) by (simp add: represents_def)
  have i: "i = next_id g" and g': "g' = map_head (head_on_create i) (g\<lparr>indices := fm_update i v (indices g), next_id := i + 1\<rparr>)"
    using assms(2) by (auto simp: emplace_def Let_def on_create_def split: if_splits)
  show "i = snd (current a)" using i c by simp
  have "represents g' (a\<lparr>current := (map_of (fm_update i v (indices g)), i + 1)\<rparr>)"
    unfolding g'
  proof (rule represents_head[OF assms(1)])
    show "dom (map_of (fm_update i v (indices g))) \<subseteq> {..<i + 1}"
      using assms(1) i by (auto simp: represents_def)
    show "fm_sorted (fm_update i v (indices g))" using assms(1) by (simp add: represents_def fm_sorted_update)
    show "undo_delta b (current a) u \<Longrightarrow> undo_delta b (map_of (fm_update i v (indices g)), i + 1) (head_on_create i u)" for b u
      using undo_delta_create[of b "current a" u i v] i c by simp
    show "undo_revision (head_on_create i u) = undo_revision u" for u :: "'a undo_state"
      by (simp add: head_on_create_def)
  qed
  then show "represents g' (snap_create v a)" using i c by (simp add: snap_create_def)
qed

lemma modify_refines:
  assumes "represents g a" "modify cf i f g = Inr g'"
  shows "\<exists>v. fst (current a) i = Some v \<and> represents g' (snap_put i (f v) a)"
proof -
  have c: "current a = (map_of (indices g), next_id g)" using assms(1) by (simp add: represents_def)
  obtain v where v: "map_of (indices g) i = Some v"
      and g': "g' = map_head (head_on_modify i v) (g\<lparr>indices := fm_update i (f v) (indices g), next_id := next_id g\<rparr>)"
    using assms(2) by (auto simp: modify_def Let_def on_modify_def map_head_def split: option.splits if_splits list.splits)
  have "represents g' (a\<lparr>current := (map_of (fm_update i (f v) (indices g)), next_id g)\<rparr>)"
    unfolding g'
  proof (rule represents_head[OF assms(1)])
    show "dom (map_of (fm_update i (f v) (indices g))) \<subseteq> {..<next_id g}"
      using assms(1) v by (auto simp: represents_def)
    show "fm_sorted (fm_update i (f v) (indices g))" using assms(1) by (simp add: represents_def fm_sorted_update)
    show "undo_delta b (current a) u \<Longrightarrow>
        undo_delta b (map_of (fm_update i (f v) (indices g)), next_id g) (head_on_modify i v u)" for b u
      using undo_delta_modify[of b "current a" u i v "f v"] v c by simp
    show "undo_revision (head_on_modify i v u) = undo_revision u" for u by (simp add: head_on_modify_def)
  qed
  then show ?thesis using v c by (simp add: snap_put_def)
qed

lemma remove_refines:
  assumes "represents g a" "remove i g = Inr g'"
  shows "represents g' (snap_remove i a)"
proof -
  have c: "current a = (map_of (indices g), next_id g)" using assms(1) by (simp add: represents_def)
  obtain v where v: "map_of (indices g) i = Some v"
      and g': "g' = map_head (head_on_remove i v) (g\<lparr>indices := fm_erase i (indices g), next_id := next_id g\<rparr>)"
    using assms(2) by (auto simp: remove_def Let_def on_remove_def map_head_def split: option.splits list.splits)
  have "represents g' (a\<lparr>current := (map_of (fm_erase i (indices g)), next_id g)\<rparr>)"
    unfolding g'
  proof (rule represents_head[OF assms(1)])
    show "dom (map_of (fm_erase i (indices g))) \<subseteq> {..<next_id g}"
      using assms(1) by (auto simp: represents_def)
    show "fm_sorted (fm_erase i (indices g))" using assms(1) by (simp add: represents_def fm_sorted_erase)
    show "undo_delta b (current a) u \<Longrightarrow>
        undo_delta b (map_of (fm_erase i (indices g)), next_id g) (head_on_remove i v u)" for b u
      using undo_delta_remove[of b "current a" u i v] v c by simp
    show "undo_revision (head_on_remove i v u) = undo_revision u" for u
      by (simp add: head_on_remove_def split: option.splits)
  qed
  then show ?thesis using c by (simp add: snap_remove_def)
qed

lemma start_refines:
  "represents g a \<Longrightarrow> represents (start_undo_session g) (snap_start (idx_revision g + 1) a)"
  using undo_delta_start[of "current a" "idx_revision g + 1"]
  by (auto simp: represents_def start_undo_session_def snap_start_def Let_def)

lemma undo_refines:
  assumes "represents g a" "undo cf g = Inr g'"
  shows "represents g' (snap_undo a)"
proof (cases "saved a")
  case Nil
  then have "undo_stack g = []" using assms(1) by (cases "undo_stack g") (auto simp: represents_def)
  then show ?thesis using assms Nil by (simp add: undo_def snap_undo_def)
next
  case (Cons b bs)
  then show ?thesis using undo_restores[OF assms(1) _ assms(2), of "fst b" "snd b" bs]
    by (cases b) (auto simp: snap_undo_def)
qed

lemma squash_refines:
  assumes "represents g a"
  shows "represents (squash g) (snap_squash a)"
proof -
  consider "undo_stack g = []" | u where "undo_stack g = [u]" | u1 u2 us where "undo_stack g = u1 # u2 # us"
    by (metis list.exhaust)
  then show ?thesis
  proof cases
    case 1
    then show ?thesis using assms by (auto simp: represents_def squash_def snap_squash_def)
  next
    case (2 u)
    then show ?thesis using assms
      by (auto simp: represents_def squash_def snap_squash_def split: list.splits)
  next
    case (3 u1 u2 us)
    then obtain b1 r1 b2 r2 bs where s: "saved a = (b1, r1) # (b2, r2) # bs"
      using assms by (auto simp: represents_def split: list.splits)
    then have "undo_delta b2 (current a) (merge_states u1 u2)" "r2 = undo_revision u2" "delta_chain b2 us bs"
      using 3 assms undo_delta_merge[of b1 "current a" u1 b2 u2] by (auto simp: represents_def)
    then show ?thesis using 3 s assms by (simp add: represents_def squash_def snap_squash_def)
  qed
qed

lemma delta_chain_take:
  "delta_chain c us bs \<Longrightarrow> delta_chain c (take n us) (take n bs)"
  by (induction c us bs arbitrary: n rule: delta_chain.induct)
    (auto simp: take_Cons split: list.splits nat.splits prod.splits)

lemma delta_chain_revisions: "delta_chain c us bs \<Longrightarrow> map snd bs = map undo_revision us"
  by (induction c us bs rule: delta_chain.induct) (auto split: list.splits)

lemma rev_dropWhile_rev: "\<exists>n. rev (dropWhile P (rev xs)) = take n xs"
proof -
  have "rev xs = takeWhile P (rev xs) @ dropWhile P (rev xs)" by simp
  then have "xs = rev (dropWhile P (rev xs)) @ rev (takeWhile P (rev xs))"
    by (metis rev_append rev_rev_ident)
  then show ?thesis by (metis append_eq_conv_conj)
qed

lemma length_dropWhile_map: "length (dropWhile (P \<circ> f) xs) = length (dropWhile P (map f xs))"
  by (simp add: dropWhile_map)

lemma commit_refines:
  assumes "represents g a"
  shows "represents (commit r g) (snap_commit r a)"
proof -
  let ?us = "undo_stack g" and ?bs = "saved a"
  have ch: "delta_chain (current a) ?us ?bs" using assms unfolding represents_def by blast
  have rv: "map snd ?bs = map undo_revision ?us" using delta_chain_revisions[OF ch] .
  let ?n = "length (dropWhile (\<lambda>x. x \<le> r) (map undo_revision (rev ?us)))"
  have tk: "rev (dropWhile (\<lambda>x. f x \<le> r) (rev xs)) = take (length (dropWhile (\<lambda>x. x \<le> r) (map f (rev xs)))) xs"
    for f :: "'b \<Rightarrow> int" and xs
  proof -
    obtain n where n: "rev (dropWhile (\<lambda>x. f x \<le> r) (rev xs)) = take n xs" using rev_dropWhile_rev by blast
    have "length (dropWhile (\<lambda>x. f x \<le> r) (rev xs)) = length (dropWhile (\<lambda>x. x \<le> r) (map f (rev xs)))"
      by (simp add: dropWhile_map comp_def)
    with n show ?thesis by (metis length_rev length_take min_def take_all_iff nle_le)
  qed
  have "map snd (rev ?bs) = map undo_revision (rev ?us)" using rv by (simp add: rev_map[symmetric])
  then have "snap_commit r a = a\<lparr>saved := take ?n ?bs\<rparr>" "commit r g = g\<lparr>undo_stack := take ?n ?us\<rparr>"
    using tk[of snd ?bs] tk[of undo_revision ?us] by (simp_all add: snap_commit_def commit_def)
  then show ?thesis using assms delta_chain_take[OF ch, of ?n] by (simp add: represents_def)
qed

lemma run_op_refines:
  assumes "represents g a" "run_op cf op g = Inr g'"
  shows "represents g' (snap_op g op a)"
proof (cases op)
  case (Create v)
  then show ?thesis using assms emplace_refines by (auto simp: result_simps)
next
  case (Modify i f)
  then show ?thesis using assms modify_refines[OF assms(1), of cf i f g'] by auto
next
  case (Remove i)
  then show ?thesis using assms remove_refines by auto
next
  case Undo
  then show ?thesis using assms undo_refines by auto
qed (use assms start_refines squash_refines commit_refines in auto)

lemma run_op_abs:
  assumes "index_inv g" "run_op cf op g = Inr g'"
  shows "index_inv g' \<and> abs_index g' = snap_op g op (abs_index g)"
  using run_op_refines[OF _ assms(2), of "abs_index g"] assms(1) represents_abs
  unfolding index_inv_def by metis

lemma object_op_saved: "is_object_op op \<Longrightarrow> saved (snap_op g op a) = saved a"
  by (cases op) (auto simp: snap_create_def snap_put_def snap_remove_def split: option.splits)

lemma object_ops_saved:
  assumes "res_fold (run_op cf) ops g = Inr g'" "index_inv g" "list_all is_object_op ops"
  shows "index_inv g' \<and> saved (abs_index g') = saved (abs_index g)"
  using assms
proof (induction ops arbitrary: g)
  case (Cons op ops)
  then obtain g1 where "run_op cf op g = Inr g1" "res_fold (run_op cf) ops g1 = Inr g'"
    by (auto simp: result_simps)
  with Cons show ?case using run_op_abs[of g cf op g1] object_op_saved[of op g] by simp
qed simp

section \<open>Undoing succeeds\<close>

lemma fm_sorted_distinct: "fm_sorted m \<Longrightarrow> distinct (map fst m)"
  by (simp add: fm_sorted_def strict_sorted_iff)

lemma insertable_from_views:
  assumes "compatible cf b c" "from_views b c m" "fst b i = Some v"
  shows "insertable cf i v m"
proof -
  have "\<not> cf v w" if "(j, w) \<in> set m" "j \<noteq> i" for j w
  proof -
    have "map_of m j = Some w" using that(1) assms(2) fm_sorted_distinct[of m]
      by (simp add: from_views_def map_of_eq_Some_iff)
    then show ?thesis using assms that(2) unfolding compatible_def from_views_def by metis
  qed
  then show ?thesis by (auto simp: insertable_def list_all_iff)
qed

lemma from_views_update: "from_views b c m \<Longrightarrow> fst b i = Some v \<Longrightarrow> from_views b c (fm_update i v m)"
  by (auto simp: from_views_def fm_sorted_update)

lemma restore_old_ok:
  assumes "compatible cf b c" "from_views b c m" "\<forall>(i, v)\<in>set os. fst b i = Some v"
  shows "\<exists>m'. res_fold (restore_old cf) os m = Inr m' \<and> from_views b c m'"
  using assms(2,3)
proof (induction os arbitrary: m)
  case (Cons e os)
  obtain i v where e: "e = (i, v)" by force
  have "restore_old cf e m = Inr (fm_update i v m)"
    using insertable_from_views[OF assms(1) Cons.prems(1)] Cons.prems(2) by (simp add: e restore_old_def)
  then show ?case using Cons.IH[of "fm_update i v m"] Cons.prems from_views_update[of b c m i v] by (auto simp: e)
qed simp

lemma erase_new_ok:
  assumes "from_views b c m" "\<forall>i\<in>set is. map_of m i \<noteq> None" "distinct is"
  shows "\<exists>m'. res_fold erase_new is m = Inr m' \<and> from_views b c m'"
  using assms
proof (induction "is" arbitrary: m)
  case (Cons i "is")
  have "from_views b c (fm_erase i m)" using Cons.prems(1) by (auto simp: from_views_def fm_sorted_erase)
  moreover have "\<forall>j\<in>set is. map_of (fm_erase i m) j \<noteq> None" using Cons.prems(2,3) by auto
  ultimately show ?case using Cons.IH[of "fm_erase i m"] Cons.prems(2,3) by (auto simp: erase_new_def)
qed simp

lemma restore_removed_ok:
  assumes "compatible cf b c" "from_views b c m" "\<forall>(i, v)\<in>set rs. fst b i = Some v \<and> map_of m i = None"
    "distinct (map fst rs)"
  shows "\<exists>m'. res_fold (restore_removed cf) rs m = Inr m'"
  using assms(2-4)
proof (induction rs arbitrary: m)
  case (Cons e rs)
  obtain i v where e: "e = (i, v)" by force
  have "restore_removed cf e m = Inr (fm_update i v m)"
    using insertable_from_views[OF assms(1) Cons.prems(1)] Cons.prems(2) by (simp add: e restore_removed_def)
  moreover have "\<forall>(j, w)\<in>set rs. fst b j = Some w \<and> map_of (fm_update i v m) j = None"
    using Cons.prems(2,3) by (auto simp: e rev_image_eqI)
  ultimately show ?case using Cons.IH[of "fm_update i v m"] Cons.prems from_views_update[of b c m i v] by (auto simp: e)
qed simp

lemma undo_succeeds:
  assumes "index_inv g" "saved (abs_index g) = (b, r) # bs" "compatible cf b (current (abs_index g))"
  shows "is_ok (undo cf g)"
proof -
  let ?c = "current (abs_index g)"
  obtain u us where us: "undo_stack g = u # us"
    using assms(2) by (cases "undo_stack g") (auto simp: abs_index_def)
  have rep: "represents g (abs_index g)" using assms(1) by (simp add: index_inv_def)
  have d: "undo_delta b ?c u" using rep assms(2) us by (simp add: represents_def, metis)
  have c: "?c = (map_of (indices g), next_id g)" by (simp add: abs_index_def Let_def)
  have wf: "fm_sorted (old_values u)" "fm_sorted (removed_values u)" "distinct (new_ids u)"
    using d by (auto simp: undo_delta_def wf_undo_def)
  have "from_views b ?c (indices g)" using rep c by (simp add: from_views_def represents_def)
  moreover have "\<forall>(i, v)\<in>set (old_values u). fst b i = Some v"
    using undo_deltaD(2)[OF d] fm_sorted_distinct[OF wf(1)] by (auto simp: map_of_eq_Some_iff)
  ultimately obtain m1 where m1: "res_fold (restore_old cf) (old_values u) (indices g) = Inr m1" "from_views b ?c m1"
    using restore_old_ok[OF assms(3)] by blast
  have m1m: "map_of m1 = fst ?c ++ map_of (old_values u)"
    using restore_old_fold[OF m1(1) wf(1)] rep c by (simp add: represents_def)
  have "\<forall>i\<in>set (new_ids u). map_of m1 i \<noteq> None"
    using undo_deltaD(1)[OF d] by (auto simp: m1m map_add_def split: option.splits)
  then obtain m2 where m2: "res_fold erase_new (new_ids u) m1 = Inr m2" "from_views b ?c m2"
    using erase_new_ok[OF m1(2) _ wf(3)] by blast
  have m2m: "map_of m2 = (\<lambda>i. if i \<in> set (new_ids u) then None else map_of m1 i)"
    using erase_new_fold[OF m2(1)] m1(2) by (simp add: from_views_def)
  have "fst b i = Some v \<and> map_of m2 i = None" if "(i, v) \<in> set (removed_values u)" for i v
  proof -
    have r: "map_of (removed_values u) i = Some v"
      using that fm_sorted_distinct[OF wf(2)] by (simp add: map_of_eq_Some_iff)
    then have "map_of (old_values u) i = None" using undo_deltaD(2)[OF d, of i] by (cases "map_of (old_values u) i") auto
    with undo_deltaD(3)[OF d r] show ?thesis by (simp add: m2m m1m map_add_def)
  qed
  then obtain m3 where "res_fold (restore_removed cf) (removed_values u) m2 = Inr m3"
    using restore_removed_ok[OF assms(3) m2(2)] fm_sorted_distinct[OF wf(2)] by blast
  with us m1(1) m2(1) show ?thesis by (simp add: undo_def)
qed

section \<open>The contract of a session\<close>

locale revertible =
  fixes start :: "'s \<Rightarrow> 's" and rollback :: "'s \<Rightarrow> 's result" and merge :: "'s \<Rightarrow> 's"
    and view :: "'s \<Rightarrow> 'x" and history :: "'s \<Rightarrow> 'x list" and inv :: "'s \<Rightarrow> bool"
  assumes start_law: "inv s \<Longrightarrow> inv (start s) \<and> view (start s) = view s \<and> history (start s) = view s # history s"
    and rollback_law: "inv s \<Longrightarrow> history s = b # bs \<Longrightarrow> rollback s = Inr s' \<Longrightarrow>
      inv s' \<and> view s' = b \<and> history s' = bs"
    and merge_law: "inv s \<Longrightarrow> history s = b # bs \<Longrightarrow>
      inv (merge s) \<and> view (merge s) = view s \<and> history (merge s) = bs"

begin

lemma session_rolled_back:
  assumes "inv s" "inv s1" "history s1 = history (start s)" "rollback s1 = Inr s2"
  shows "inv s2 \<and> view s2 = view s \<and> history s2 = history s"
proof -
  have "history s1 = view s # history s" using assms(3) start_law[OF assms(1)] by simp
  then show ?thesis using rollback_law[OF assms(2) _ assms(4)] by blast
qed

lemma nested_session_rolled_back:
  assumes "inv s" "inv s1" "history s1 = history (start s)"
    and "inv s2" "history s2 = history (start s1)" "rollback (merge s2) = Inr s3"
  shows "inv s3 \<and> view s3 = view s \<and> history s3 = history s"
proof -
  have "history s2 = view s1 # view s # history s"
    using assms start_law[OF assms(1)] start_law[OF assms(2)] by simp
  then have "inv (merge s2)" "history (merge s2) = view s # history s" using merge_law[OF assms(4)] by auto
  with rollback_law assms(6) show ?thesis by blast
qed

lemma merge_then_rollback:
  assumes "inv s" "history s = b1 # b2 # bs"
    and "rollback s = Inr s1" "rollback s1 = Inr s2" "rollback (merge s) = Inr s3"
  shows "view s3 = view s2 \<and> history s3 = history s2"
proof -
  have "inv s1" "history s1 = b2 # bs" using rollback_law[OF assms(1-3)] by auto
  then have "view s2 = b2" "history s2 = bs" using rollback_law assms(4) by blast+
  moreover have "inv (merge s)" "history (merge s) = b2 # bs" using merge_law[OF assms(1,2)] by auto
  then have "view s3 = b2" "history s3 = bs" using rollback_law assms(5) by blast+
  ultimately show ?thesis by simp
qed

end

lemma start_abs: "index_inv g \<Longrightarrow> index_inv (start_undo_session g)
    \<and> abs_index (start_undo_session g) = snap_start (idx_revision g + 1) (abs_index g)"
  using run_op_abs[of g "\<lambda>_ _. False" Start] by simp

lemma squash_abs: "index_inv g \<Longrightarrow> index_inv (squash g) \<and> abs_index (squash g) = snap_squash (abs_index g)"
  using run_op_abs[of g "\<lambda>_ _. False" Squash] by simp

lemma undo_abs: "index_inv g \<Longrightarrow> undo cf g = Inr g' \<Longrightarrow> index_inv g' \<and> abs_index g' = snap_undo (abs_index g)"
  using run_op_abs[of g cf Undo] by simp

interpretation idx: revertible start_undo_session "undo cf" squash index_view index_history index_inv
  for cf :: "'v conflict"
proof unfold_locales
  fix g :: "'v generic_index"
  assume "index_inv g"
  then show "index_inv (start_undo_session g) \<and> index_view (start_undo_session g) = index_view g
      \<and> index_history (start_undo_session g) = index_view g # index_history g"
    by (simp add: start_abs index_view_def index_history_def snap_start_def)
next
  fix g g' :: "'v generic_index" and b bs
  assume "index_inv g" "index_history g = b # bs" "undo cf g = Inr g'"
  then show "index_inv g' \<and> index_view g' = b \<and> index_history g' = bs"
    using undo_abs[of g cf g'] by (auto simp: index_view_def index_history_def snap_undo_def)
next
  fix g :: "'v generic_index" and b bs
  assume "index_inv g" "index_history g = b # bs"
  then show "index_inv (squash g) \<and> index_view (squash g) = index_view g \<and> index_history (squash g) = bs"
    using squash_abs[of g] by (auto simp: index_view_def index_history_def snap_squash_def split: list.splits)
qed

section \<open>Exact state after a rollback\<close>

lemma index_eqI:
  assumes "index_inv g" "index_inv g'" "index_view g = index_view g'"
    and "undo_stack g = undo_stack g'" "idx_revision g = idx_revision g'"
  shows "g = (g' :: 'v generic_index)"
proof -
  have "map_of (indices g) = map_of (indices g')" "next_id g = next_id g'"
    using assms(3) by (simp_all add: index_view_def abs_index_def Let_def)
  moreover have "fm_sorted (indices g)" "fm_sorted (indices g')"
    using assms(1,2) by (simp_all add: index_inv_def represents_def)
  ultimately show ?thesis using assms(4,5) fm_sorted_eqI[of "indices g" "indices g'"] by simp
qed

lemma map_head_stack: "tl (undo_stack (map_head f g)) = tl (undo_stack g)"
    "undo_stack (map_head f g) = [] \<longleftrightarrow> undo_stack g = []"
    "idx_revision (map_head f g) = idx_revision g"
  by (auto simp: map_head_def split: list.splits)

lemma object_op_stack:
  assumes "run_op cf op g = Inr g'" "is_object_op op"
  shows "tl (undo_stack g') = tl (undo_stack g) \<and> idx_revision g' = idx_revision g
     \<and> (undo_stack g' = [] \<longleftrightarrow> undo_stack g = [])"
  using assms
  by (cases op) (auto simp: emplace_def modify_def remove_def on_create_def on_modify_def on_remove_def
      map_head_stack Let_def result_simps split: option.splits if_splits)

lemma object_ops_stack:
  assumes "res_fold (run_op cf) ops g = Inr g'" "list_all is_object_op ops"
  shows "tl (undo_stack g') = tl (undo_stack g) \<and> idx_revision g' = idx_revision g
     \<and> (undo_stack g' = [] \<longleftrightarrow> undo_stack g = [])"
  using assms
proof (induction ops arbitrary: g)
  case (Cons op ops)
  then obtain g1 where "run_op cf op g = Inr g1" "res_fold (run_op cf) ops g1 = Inr g'"
    by (auto simp: result_simps)
  with Cons show ?case using object_op_stack[of cf op g g1] by simp
qed simp

lemma undo_stack_popped:
  "undo cf g = Inr g' \<Longrightarrow> undo_stack g \<noteq> [] \<Longrightarrow>
     undo_stack g' = tl (undo_stack g) \<and> idx_revision g' = idx_revision g - 1"
  by (auto simp: undo_def result_simps split: list.splits)

lemma length_index_history [simp]: "length (index_history g) = length (undo_stack g)"
proof -
  have "length (history_of c us) = length us" for c :: "'a store_view" and us
    by (induction c us rule: history_of.induct) (auto simp: Let_def)
  then show ?thesis by (simp add: index_history_def abs_index_def Let_def)
qed

lemma db_each_Inr:
  "db_each f db = Inr db' \<Longrightarrow> list_all2 (\<lambda>a b. fst b = fst a \<and> f (fst a) (snd a) = Inr (snd b)) db db'"
  by (induction db arbitrary: db') (auto simp: result_simps)

lemma db_history_step:
  assumes "list_all2 (\<lambda>a b. index_history (snd b) = index_view (snd a) # index_history (snd a)) db db'" "db \<noteq> []"
  shows "db_history db' = db_view db # db_history db"
proof -
  have d: "db_depth db' = Suc (db_depth db)"
    using assms length_index_history by (auto simp: db_depth_def list_all2_Cons1 neq_Nil_conv) (metis length_Cons length_index_history)
  have m: "map (\<lambda>item. index_history (snd item) ! 0) db' = db_view db"
    "map (\<lambda>item. index_history (snd item) ! Suc k) db' = map (\<lambda>item. index_history (snd item) ! k) db" for k
    using assms(1) by (induction rule: list_all2_induct) (auto simp: db_view_def)
  show ?thesis unfolding db_history_def d by (simp add: upt_conv_Cons m map_Suc_upt[symmetric] del: upt_Suc)
qed

lemma db_history_pop:
  assumes "list_all2 (\<lambda>a b. index_history (snd a) \<noteq> [] \<and> index_history (snd b) = tl (index_history (snd a))) db db'"
    "db \<noteq> []"
  shows "db_history db = map (\<lambda>item. hd (index_history (snd item))) db # db_history db'"
proof -
  have d: "db_depth db = Suc (db_depth db')"
    using assms by (auto simp: db_depth_def list_all2_Cons1 neq_Nil_conv)
      (metis length_Cons length_index_history list.collapse)
  have m: "map (\<lambda>item. index_history (snd item) ! 0) db = map (\<lambda>item. hd (index_history (snd item))) db"
    "map (\<lambda>item. index_history (snd item) ! Suc k) db = map (\<lambda>item. index_history (snd item) ! k) db'" for k
    using assms(1) by (induction rule: list_all2_induct) (auto simp: neq_Nil_conv)
  show ?thesis unfolding db_history_def d by (simp add: upt_conv_Cons m map_Suc_upt[symmetric] del: upt_Suc)
qed

lemma db_invI:
  assumes "list_all2 (\<lambda>a b. index_inv (snd b) \<and> length (undo_stack (snd b)) = f (length (undo_stack (snd a)))) db db'"
    and "db_inv db"
  shows "db_inv db'"
proof -
  have n: "db \<noteq> []" "db' \<noteq> []" using assms by (auto simp: db_inv_def)
  have "index_inv (snd b) \<and> length (undo_stack (snd b)) = f (db_depth db)" if "b \<in> set db'" for b
    using assms that unfolding db_inv_def list_all2_conv_all_nth by (metis in_set_conv_nth)
  with n(2) show ?thesis by (cases db') (auto simp: db_inv_def db_depth_def)
qed

lemma db_popped:
  assumes "list_all2 (\<lambda>a b. index_inv (snd b) \<and> index_history (snd a) \<noteq> []
      \<and> index_history (snd b) = tl (index_history (snd a))) db db'"
    and "db_inv db"
  shows "db_inv db' \<and> db_history db = map (\<lambda>item. hd (index_history (snd item))) db # db_history db'"
proof
  have "list_all2 (\<lambda>a b. index_inv (snd b)
      \<and> length (undo_stack (snd b)) = length (undo_stack (snd a)) - 1) db db'"
    using assms(1) by (rule list_all2_mono) (metis length_index_history length_tl)
  then show "db_inv db'" using db_invI[where f = "\<lambda>n. n - 1", OF _ assms(2)] by blast
  show "db_history db = map (\<lambda>item. hd (index_history (snd item))) db # db_history db'"
    using assms(2) by (intro db_history_pop list_all2_mono[OF assms(1)]) (auto simp: db_inv_def)
qed

lemma db_history_Cons: "db_inv db \<Longrightarrow> db_history db = b # bs \<Longrightarrow> \<forall>item\<in>set db. index_history (snd item) \<noteq> []"
  unfolding db_inv_def db_history_def by (metis length_0_conv length_index_history list.distinct(1) list.simps(8) upt_0)

lemma list_all2_map_self: "list_all2 P xs (map f xs) \<longleftrightarrow> (\<forall>x\<in>set xs. P x (f x))"
  by (simp add: list.rel_map list.rel_refl_strong list_all2_same)

lemma list_all2_map_eq: "list_all2 (\<lambda>a b. g b = f a) xs ys \<Longrightarrow> map g ys = map f xs"
  by (induction rule: list_all2_induct) auto

lemma db_start_law:
  assumes "db_inv db"
  shows "db_inv (db_start_undo_session db) \<and> db_view (db_start_undo_session db) = db_view db
    \<and> db_history (db_start_undo_session db) = db_view db # db_history db"
proof -
  let ?db = "db_start_undo_session db"
  have all: "list_all2 (\<lambda>a b. index_inv (snd b) \<and> index_view (snd b) = index_view (snd a)
      \<and> index_history (snd b) = index_view (snd a) # index_history (snd a)) db ?db"
    using assms by (auto simp: db_inv_def db_start_undo_session_def list_all2_map_self idx.start_law split_beta)
  have "list_all2 (\<lambda>a b. index_inv (snd b) \<and> length (undo_stack (snd b)) = Suc (length (undo_stack (snd a)))) db ?db"
    using all by (rule list_all2_mono) (metis length_index_history length_Cons)
  then have "db_inv ?db" using db_invI[where f = Suc, OF _ assms] by blast
  moreover have "db_history ?db = db_view db # db_history db"
    using assms by (intro db_history_step list_all2_mono[OF all]) (auto simp: db_inv_def)
  moreover have "db_view ?db = db_view db"
    unfolding db_view_def by (intro list_all2_map_eq list_all2_mono[OF all]) auto
  ultimately show ?thesis by blast
qed

lemma db_undo_law:
  assumes "db_inv db" "db_history db = b # bs" "db_undo db = Inr db'"
  shows "db_inv db' \<and> db_view db' = b \<and> db_history db' = bs"
proof -
  have ne: "\<forall>item\<in>set db. index_inv (snd item) \<and> index_history (snd item) \<noteq> []"
    using db_history_Cons[OF assms(1,2)] assms(1) by (auto simp: db_inv_def)
  have step: "index_inv g' \<and> index_view g' = hd (index_history g) \<and> index_history g' = tl (index_history g)"
    if "index_inv g" "index_history g \<noteq> []" "undo cf g = Inr g'" for cf and g g' :: "'a generic_index"
    using that idx.rollback_law[OF that(1) _ that(3)] by (cases "index_history g") auto
  have u: "list_all2 (\<lambda>a b. fst b = fst a \<and> undo (fst a) (snd a) = Inr (snd b)) db db'"
    using db_each_Inr assms(3) unfolding db_undo_def by blast
  have all: "list_all2 (\<lambda>a b. index_inv (snd b) \<and> index_history (snd a) \<noteq> []
      \<and> index_history (snd b) = tl (index_history (snd a)) \<and> index_view (snd b) = hd (index_history (snd a))) db db'"
    using ne u step unfolding list_all2_conv_all_nth by (meson nth_mem)
  have "db_inv db' \<and> db_history db = map (\<lambda>item. hd (index_history (snd item))) db # db_history db'"
    using assms(1) by (intro db_popped list_all2_mono[OF all]) auto
  moreover have "db_view db' = map (\<lambda>item. hd (index_history (snd item))) db"
    unfolding db_view_def by (intro list_all2_map_eq list_all2_mono[OF all]) auto
  ultimately show ?thesis using assms(2) by auto
qed

lemma db_squash_law:
  assumes "db_inv db" "db_history db = b # bs"
  shows "db_inv (db_squash db) \<and> db_view (db_squash db) = db_view db \<and> db_history (db_squash db) = bs"
proof -
  have ne: "\<forall>item\<in>set db. index_inv (snd item) \<and> index_history (snd item) \<noteq> []"
    using db_history_Cons[OF assms(1,2)] assms(1) by (auto simp: db_inv_def)
  have step: "index_inv (squash g) \<and> index_view (squash g) = index_view g \<and> index_history (squash g) = tl (index_history g)"
    if "index_inv g" "index_history g \<noteq> []" for g :: "'a generic_index"
    using that idx.merge_law[OF that(1)] by (cases "index_history g") auto
  have all: "list_all2 (\<lambda>a b. index_inv (snd b) \<and> index_history (snd a) \<noteq> []
      \<and> index_history (snd b) = tl (index_history (snd a)) \<and> index_view (snd b) = index_view (snd a)) db (db_squash db)"
    using ne step unfolding db_squash_def list_all2_map_self by (auto simp: split_beta)
  have "db_inv (db_squash db) \<and> db_history db = map (\<lambda>item. hd (index_history (snd item))) db # db_history (db_squash db)"
    using assms(1) by (intro db_popped list_all2_mono[OF all]) auto
  moreover have "db_view (db_squash db) = db_view db"
    unfolding db_view_def by (intro list_all2_map_eq list_all2_mono[OF all]) auto
  ultimately show ?thesis using assms(2) by auto
qed

interpretation cdb: revertible db_start_undo_session db_undo db_squash db_view db_history db_inv
  using db_start_law db_undo_law db_squash_law by unfold_locales blast+

lemma index_inv_fresh [simp]: "index_inv fresh_index"
  by (simp add: index_inv_def represents_def abs_index_def fresh_index_def fm_sorted_def)

lemma object_op_history:
  assumes "index_inv g" "run_op cf op g = Inr g'" "is_object_op op"
  shows "index_inv g' \<and> index_history g' = index_history g"
  using run_op_abs[OF assms(1,2)] object_op_saved[OF assms(3), of g] by (simp add: index_history_def)

lemma db_object_op:
  assumes "db_inv db" "db_run_op step db = Inr db'" "is_object_op (snd step)"
  shows "db_inv db' \<and> db_history db' = db_history db"
proof -
  obtain k op g where k: "step = (k, op)" "k < length db" "run_op (fst (db ! k)) op (snd (db ! k)) = Inr g"
      "db' = db[k := (fst (db ! k), g)]"
    using assms(2) by (cases step) (auto simp: db_run_op_def result_simps split: if_splits)
  have g: "index_inv g \<and> index_history g = index_history (snd (db ! k))"
    using object_op_history[OF _ k(3)] assms k(1,2) by (simp add: db_inv_def)
  have all: "list_all2 (\<lambda>a b. index_inv (snd b) \<and> index_history (snd b) = index_history (snd a)) db db'"
    using g assms(1) k(2) by (auto simp: k(4) list_all2_conv_all_nth nth_list_update db_inv_def)
  have "list_all2 (\<lambda>a b. index_inv (snd b) \<and> length (undo_stack (snd b)) = length (undo_stack (snd a))) db db'"
    using all by (rule list_all2_mono) (metis length_index_history)
  then have inv: "db_inv db'" using db_invI[where f = "\<lambda>n. n", OF _ assms(1)] by blast
  have "db_depth db' = db_depth db"
    using inv assms(1) all length_index_history unfolding db_inv_def list_all2_conv_all_nth
    by (metis length_greater_0_conv nth_mem)
  moreover have "map (\<lambda>item. index_history (snd item) ! j) db' = map (\<lambda>item. index_history (snd item) ! j) db" for j
    by (intro list_all2_map_eq list_all2_mono[OF all]) auto
  ultimately show ?thesis using inv by (simp add: db_history_def)
qed

lemma db_object_ops:
  assumes "db_inv db" "res_fold db_run_op ops db = Inr db'" "list_all (is_object_op \<circ> snd) ops"
  shows "db_inv db' \<and> db_history db' = db_history db"
  using assms
proof (induction ops arbitrary: db)
  case (Cons op ops)
  then obtain db1 where "db_run_op op db = Inr db1" "res_fold db_run_op ops db1 = Inr db'"
    by (auto simp: result_simps)
  with Cons show ?case using db_object_op[of db op db1] Cons.IH[of db1] by simp
qed simp

lemma run_ops_inv: "res_fold (run_op cf) ops g = Inr g' \<Longrightarrow> index_inv g \<Longrightarrow> index_inv g'"
proof (induction ops arbitrary: g)
  case (Cons op ops)
  then obtain g1 where "run_op cf op g = Inr g1" "res_fold (run_op cf) ops g1 = Inr g'"
    by (auto simp: result_simps)
  with Cons show ?case using run_op_abs[of g cf op g1] Cons.IH[of g1] by simp
qed simp

lemma sample_db_inv: "db_inv sample_db"
  by (simp add: sample_db_def db_inv_def db_depth_def)

lemmas chainbase_eval = db_start_undo_session_def db_run_op_def db_squash_def db_undo_def
  start_undo_session_def emplace_def modify_def remove_def on_create_def on_modify_def on_remove_def map_head_def
  head_on_create_def head_on_modify_def head_on_remove_def squash_def merge_states_def squash_old_def squash_new_def
  squash_removed_def undo_def restore_old_def erase_new_def restore_removed_def insertable_def
  fm_emplace_def fm_erase_def fs_insert_def fs_erase_def Let_def fresh_index_def

lemma squash_keeps_last_revision:
  "undo_stack g = [] \<Longrightarrow> squash (start_undo_session g) = g\<lparr>idx_revision := idx_revision g + 1\<rparr>"
  by (simp add: squash_def start_undo_session_def Let_def)

section \<open>Properties\<close>

text \<open>C19: Start a session on every index, change objects, start an inner session, change objects, squash the inner session and undo: the squash leaves the objects as they are, and the undo gives every index the objects and the enclosing snapshots it had before the outer session. This is how a block holds the changes of its transactions.\<close>

theorem nested_session_undo:
  assumes "db_inv db" "list_all (is_object_op \<circ> snd) (ops1 @ ops2)"
    and "res_fold db_run_op ops1 (db_start_undo_session db) = Inr db1"
    and "res_fold db_run_op ops2 (db_start_undo_session db1) = Inr db2"
    and "db_undo (db_squash db2) = Inr db3"
  shows "db_view (db_squash db2) = db_view db2 \<and> db_view db3 = db_view db \<and> db_history db3 = db_history db"
proof -
  have s1: "db_inv db1" "db_history db1 = db_history (db_start_undo_session db)"
    using db_object_ops[OF _ assms(3)] db_start_law[OF assms(1)] assms(2) by auto
  have s2: "db_inv db2" "db_history db2 = db_history (db_start_undo_session db1)"
    using db_object_ops[OF _ assms(4)] db_start_law[OF s1(1)] assms(2) by auto
  have "db_view (db_squash db2) = db_view db2"
    using s2 db_start_law[OF s1(1)] cdb.merge_law[OF s2(1)] by metis
  then show ?thesis using cdb.nested_session_rolled_back[OF assms(1) s1 s2 assms(5)] by blast
qed

theorem nested_session_undo_witness:
  "\<exists>db1 db2 db3. db_inv sample_db
     \<and> res_fold db_run_op [(0, Create 5), (1, Create 7)] (db_start_undo_session sample_db) = Inr db1
     \<and> res_fold db_run_op [(0, Modify 0 Suc), (1, Remove 0), (1, Create 8)] (db_start_undo_session db1) = Inr db2
     \<and> db_undo (db_squash db2) = Inr db3 \<and> db_view db2 \<noteq> db_view db1 \<and> db_view db3 = db_view sample_db"
proof -
  have "\<exists>db1 db2 db3.
       res_fold db_run_op [(0, Create 5), (1, Create 7)] (db_start_undo_session sample_db) = Inr db1
     \<and> res_fold db_run_op [(0, Modify 0 Suc), (1, Remove 0), (1, Create 8)] (db_start_undo_session db1) = Inr db2
     \<and> db_undo (db_squash db2) = Inr db3 \<and> map (indices \<circ> snd) db2 = [[(0, 6)], [(1, 8)]]
     \<and> map (indices \<circ> snd) db1 = [[(0, 5)], [(0, 7)]]"
    by (simp add: sample_db_def chainbase_eval)
  then obtain db1 db2 db3 where run:
      "res_fold db_run_op [(0, Create 5), (1, Create 7)] (db_start_undo_session sample_db) = Inr db1"
      "res_fold db_run_op [(0, Modify 0 Suc), (1, Remove 0), (1, Create 8)] (db_start_undo_session db1) = Inr db2"
      "db_undo (db_squash db2) = Inr db3"
    and view: "map (indices \<circ> snd) db2 = [[(0, 6)], [(1, 8)]]" "map (indices \<circ> snd) db1 = [[(0, 5)], [(0, 7)]]"
    by (elim exE conjE)
  have "db_view db2 \<noteq> db_view db1"
    using view by (auto simp: db_view_def index_view_def abs_index_def Let_def map_eq_Cons_conv dest!: map_upd_eqD1)
  with nested_session_undo[OF sample_db_inv _ run] run sample_db_inv show ?thesis by auto
qed

text \<open>C20: A session on an index followed by any creations, modifications and removals is undone to exactly the index before it (objects, next identifier, undo stack and revision), provided no two objects of the values before and after conflict in a unique key; the undo then does not throw.\<close>

theorem session_undo_restores:
  assumes "index_inv g" "list_all is_object_op ops"
    and "res_fold (run_op cf) ops (start_undo_session g) = Inr g1"
    and "compatible cf (index_view g) (index_view g1)"
  shows "undo cf g1 = Inr g"
proof -
  let ?s = "start_undo_session g"
  have s: "index_inv ?s" "saved (abs_index ?s) = (index_view g, idx_revision g + 1) # saved (abs_index g)"
    using start_abs[OF assms(1)] by (simp_all add: snap_start_def index_view_def)
  have g1: "index_inv g1" "saved (abs_index g1) = saved (abs_index ?s)"
    using object_ops_saved[OF assms(3) s(1) assms(2)] by auto
  have "is_ok (undo cf g1)"
    using undo_succeeds[OF g1(1) g1(2)[unfolded s(2)]] assms(4) by (simp add: index_view_def)
  then obtain g2 where g2: "undo cf g1 = Inr g2" by (auto simp: is_ok_iff)
  have "index_inv g2 \<and> index_view g2 = index_view g"
    using idx.session_rolled_back[OF assms(1) g1(1) _ g2] g1(2) by (simp add: index_history_def)
  moreover have "undo_stack g2 = undo_stack g" "idx_revision g2 = idx_revision g"
    using object_ops_stack[OF assms(3,2)] undo_stack_popped[OF g2]
    by (auto simp: start_undo_session_def Let_def)
  ultimately show ?thesis using g2 index_eqI[OF _ assms(1)] by blast
qed

theorem session_undo_restores_witness:
  "\<exists>g1. res_fold (run_op (=)) [Create (5::nat), Modify 0 Suc] (start_undo_session fresh_index) = Inr g1
     \<and> g1 \<noteq> fresh_index \<and> undo (=) g1 = Inr fresh_index"
proof -
  obtain g1 where run: "res_fold (run_op (=)) [Create (5::nat), Modify 0 Suc] (start_undo_session fresh_index) = Inr g1"
      and ne: "indices g1 = [(0, 6)]"
    by (simp add: chainbase_eval)
  have "compatible (=) (index_view fresh_index) (index_view g1)"
    by (simp add: compatible_def index_view_def abs_index_def Let_def ne fresh_index_def)
  with session_undo_restores[OF index_inv_fresh _ run] run ne show ?thesis by (auto simp: fresh_index_def)
qed



text \<open>C22: The undo records, which hold only differences, implement a stack of full snapshots: every operation of the index that returns is the operation of the same name on the snapshots, and keeps the invariant of the records.\<close>

theorem index_refines_snapshots:
  assumes "index_inv g" "run_op cf op g = Inr g'"
  shows "index_inv g' \<and> abs_index g' = snap_op g op (abs_index g)"
  using assms by (rule run_op_abs)

theorem index_refines_snapshots_witness:
  "\<exists>g'. index_inv fresh_index \<and> run_op (=) (Create (5::nat)) fresh_index = Inr g'
     \<and> abs_index g' = snap_create 5 (abs_index fresh_index)"
  using index_refines_snapshots[OF index_inv_fresh, of "(=)" "Create (5::nat)"] index_inv_fresh
  by (simp add: chainbase_eval)


end
