(* ===== verification/Utf8.thy ===== *)
theory Utf8
  imports Xgt_Prelude
begin

text \<open>
  UTF-8: \<open>libraries/fc/src/utf8.cpp\<close> and the decoder and encoder of
  \<open>libraries/fc/src/utf8/core.h\<close> and \<open>checked.h\<close>, which the validation of operations calls on
  every text.  The lemmas show that the decoder accepts exactly the octets the encoder
  writes: no overlong form, no surrogate, nothing above the last code point.
\<close>

section \<open>Code points and octets\<close>

definition LEAD_SURROGATE_MIN :: "32 word" where "LEAD_SURROGATE_MIN = 0xd800"

definition TRAIL_SURROGATE_MAX :: "32 word" where "TRAIL_SURROGATE_MAX = 0xdfff"

definition CODE_POINT_MAX :: "32 word" where "CODE_POINT_MAX = 0x10ffff"

definition is_trail :: "8 word \<Rightarrow> bool" where
  "is_trail oc = (drop_bit 6 oc = 2)"

definition is_surrogate :: "32 word \<Rightarrow> bool" where
  "is_surrogate cp = (cp \<ge> LEAD_SURROGATE_MIN \<and> cp \<le> TRAIL_SURROGATE_MAX)"

definition is_code_point_valid :: "32 word \<Rightarrow> bool" where
  "is_code_point_valid cp = (cp \<le> CODE_POINT_MAX \<and> \<not> is_surrogate cp)"

definition sequence_length :: "8 word \<Rightarrow> nat" where
  "sequence_length lead =
    (if lead < 0x80 then 1
     else if drop_bit 5 lead = 0x6 then 2
     else if drop_bit 4 lead = 0xe then 3
     else if drop_bit 3 lead = 0x1e then 4
     else 0)"

definition is_overlong_sequence :: "32 word \<Rightarrow> nat \<Rightarrow> bool" where
  "is_overlong_sequence cp n =
    (if cp < 0x80 then n \<noteq> 1
     else if cp < 0x800 then n \<noteq> 2
     else if cp < 0x10000 then n \<noteq> 3
     else False)"

datatype utf_error = NOT_ENOUGH_ROOM | INVALID_LEAD | INCOMPLETE_SEQUENCE | OVERLONG_SEQUENCE | INVALID_CODE_POINT

section \<open>Decoding\<close>

text \<open>An iterator is the list of the octets from it to the end; \<open>UTF8_OK\<close> is the right side of
  the sum.\<close>

definition increase_safely :: "bytes \<Rightarrow> utf_error + bytes" where
  "increase_safely it = (case tl it of
      [] \<Rightarrow> Inl NOT_ENOUGH_ROOM
    | oc # _ \<Rightarrow> if is_trail oc then Inr (tl it) else Inl INCOMPLETE_SEQUENCE)"

fun utf_bind :: "utf_error + 'a \<Rightarrow> ('a \<Rightarrow> utf_error + 'b) \<Rightarrow> utf_error + 'b" where
  "utf_bind (Inl e) f = Inl e"
| "utf_bind (Inr x) f = f x"

definition get_sequence_1 :: "bytes \<Rightarrow> utf_error + (32 word \<times> bytes)" where
  "get_sequence_1 it = (if it = [] then Inl NOT_ENOUGH_ROOM else Inr (ucast (hd it), it))"

definition get_sequence_2 :: "bytes \<Rightarrow> utf_error + (32 word \<times> bytes)" where
  "get_sequence_2 it =
    (if it = [] then Inl NOT_ENOUGH_ROOM
     else let cp = ucast (hd it) :: 32 word in
       utf_bind (increase_safely it) (\<lambda>it.
         Inr ((push_bit 6 cp AND 0x7ff) + (ucast (hd it) AND 0x3f), it)))"

definition get_sequence_3 :: "bytes \<Rightarrow> utf_error + (32 word \<times> bytes)" where
  "get_sequence_3 it =
    (if it = [] then Inl NOT_ENOUGH_ROOM
     else let cp = ucast (hd it) :: 32 word in
       utf_bind (increase_safely it) (\<lambda>it.
         let cp = (push_bit 12 cp AND 0xffff) + (push_bit 6 (ucast (hd it)) AND 0xfff) in
         utf_bind (increase_safely it) (\<lambda>it.
           Inr (cp + (ucast (hd it) AND 0x3f), it))))"

definition get_sequence_4 :: "bytes \<Rightarrow> utf_error + (32 word \<times> bytes)" where
  "get_sequence_4 it =
    (if it = [] then Inl NOT_ENOUGH_ROOM
     else let cp = ucast (hd it) :: 32 word in
       utf_bind (increase_safely it) (\<lambda>it.
         let cp = (push_bit 18 cp AND 0x1fffff) + (push_bit 12 (ucast (hd it)) AND 0x3ffff) in
         utf_bind (increase_safely it) (\<lambda>it.
           let cp = cp + (push_bit 6 (ucast (hd it)) AND 0xfff) in
           utf_bind (increase_safely it) (\<lambda>it.
             Inr (cp + (ucast (hd it) AND 0x3f), it)))))"

text \<open>On failure the source restores the iterator; here the caller still has it.\<close>

definition validate_next :: "bytes \<Rightarrow> utf_error + (32 word \<times> bytes)" where
  "validate_next it =
    (let n = sequence_length (hd it) in
     utf_bind (if n = 0 then Inl INVALID_LEAD
               else if n = 1 then get_sequence_1 it
               else if n = 2 then get_sequence_2 it
               else if n = 3 then get_sequence_3 it
               else get_sequence_4 it) (\<lambda>(cp, it).
       if is_code_point_valid cp then
         if \<not> is_overlong_sequence cp n then Inr (cp, tl it)
         else Inl OVERLONG_SEQUENCE
       else Inl INVALID_CODE_POINT))"

function find_invalid :: "bytes \<Rightarrow> bytes" where
  "find_invalid it = (if it = [] then [] else
     case validate_next it of Inl e \<Rightarrow> it | Inr (cp, it') \<Rightarrow> find_invalid it')"
  by pat_completeness auto

termination
  by (relation "measure length")
    (auto simp: validate_next_def get_sequence_1_def get_sequence_2_def get_sequence_3_def
      get_sequence_4_def increase_safely_def Let_def neq_Nil_conv split: if_splits list.splits)

declare find_invalid.simps [simp del]

definition is_valid_utf8 :: "bytes \<Rightarrow> bool" where
  "is_valid_utf8 it = (find_invalid it = [])"

text \<open>\<open>fc::is_utf8\<close> of a string, whose characters are its octets.\<close>

definition is_utf8 :: "string \<Rightarrow> bool" where
  "is_utf8 s = is_valid_utf8 (map of_char s)"

function prune_loop :: "bytes \<Rightarrow> bytes" where
  "prune_loop itr = (if itr = [] then [] else
     let start = tl itr; itr' = find_invalid start
     in take (length start - length itr') start @ prune_loop itr')"
  by pat_completeness auto

termination
proof (relation "measure length")
  have len: "length (find_invalid xs) \<le> length xs" for xs
  proof (induction xs rule: find_invalid.induct)
    case (1 it)
    have "length it' \<le> length it" if "it \<noteq> []" "validate_next it = Inr (cp, it')" for cp it'
      using that by (auto simp: validate_next_def get_sequence_1_def get_sequence_2_def get_sequence_3_def
        get_sequence_4_def increase_safely_def Let_def neq_Nil_conv split: if_splits list.splits)
    then show ?case using 1 by (subst find_invalid.simps) (fastforce split: sum.split)
  qed
  show "(itr', itr) \<in> measure length" if "itr \<noteq> []" "start = tl itr" "itr' = find_invalid start"
    for itr start itr'
    using that len[of "tl itr"] by (cases itr) auto
qed simp

declare prune_loop.simps [simp del]

definition prune_invalid_utf8 :: "bytes \<Rightarrow> bytes" where
  "prune_invalid_utf8 str =
    (let itr = find_invalid str in
     if itr = [] then str else take (length str - length itr) str @ prune_loop itr)"

section \<open>Encoding\<close>

datatype utf8_exception = Not_Enough_Room | Invalid_Utf8 "8 word" | Invalid_Code_Point "32 word"

definition utf8_append :: "32 word \<Rightarrow> utf8_exception + bytes" where
  "utf8_append cp =
    (if \<not> is_code_point_valid cp then Inl (Invalid_Code_Point cp)
     else if cp < 0x80 then Inr [ucast cp]
     else if cp < 0x800 then
       Inr [ucast (drop_bit 6 cp OR 0xc0), ucast ((cp AND 0x3f) OR 0x80)]
     else if cp < 0x10000 then
       Inr [ucast (drop_bit 12 cp OR 0xe0), ucast ((drop_bit 6 cp AND 0x3f) OR 0x80),
            ucast ((cp AND 0x3f) OR 0x80)]
     else
       Inr [ucast (drop_bit 18 cp OR 0xf0), ucast ((drop_bit 12 cp AND 0x3f) OR 0x80),
            ucast ((drop_bit 6 cp AND 0x3f) OR 0x80), ucast ((cp AND 0x3f) OR 0x80)])"

text \<open>\<open>validate_next\<close> leaves the code point at zero when it fails.\<close>

definition utf8_next :: "bytes \<Rightarrow> utf8_exception + (32 word \<times> bytes)" where
  "utf8_next it = (case validate_next it of
      Inr r \<Rightarrow> Inr r
    | Inl NOT_ENOUGH_ROOM \<Rightarrow> Inl Not_Enough_Room
    | Inl INVALID_CODE_POINT \<Rightarrow> Inl (Invalid_Code_Point 0)
    | Inl _ \<Rightarrow> Inl (Invalid_Utf8 (hd it)))"

fun utf32to8 :: "32 word list \<Rightarrow> utf8_exception + bytes" where
  "utf32to8 [] = Inr []"
| "utf32to8 (cp # cps) = (case utf8_append cp of Inl e \<Rightarrow> Inl e
     | Inr bs \<Rightarrow> (case utf32to8 cps of Inl e \<Rightarrow> Inl e | Inr rest \<Rightarrow> Inr (bs @ rest)))"

function utf8to32 :: "bytes \<Rightarrow> utf8_exception + 32 word list" where
  "utf8to32 it = (if it = [] then Inr [] else
     case utf8_next it of Inl e \<Rightarrow> Inl e
     | Inr (cp, it') \<Rightarrow> (case utf8to32 it' of Inl e \<Rightarrow> Inl e | Inr cps \<Rightarrow> Inr (cp # cps)))"
  by pat_completeness auto

termination
  by (relation "measure length")
    (auto simp: utf8_next_def validate_next_def get_sequence_1_def get_sequence_2_def get_sequence_3_def
      get_sequence_4_def increase_safely_def Let_def neq_Nil_conv split: if_splits list.splits sum.splits utf_error.splits)

declare utf8to32.simps [simp del]

section \<open>Reference definitions\<close>

text \<open>The reference: the octets of a code point as numbers.\<close>

definition utf8_octets :: "nat \<Rightarrow> nat list" where
  "utf8_octets n =
    (if n < 0x80 then [n]
     else if n < 0x800 then [192 + n div 64, 128 + n mod 64]
     else if n < 0x10000 then [224 + n div 4096, 128 + n div 64 mod 64, 128 + n mod 64]
     else [240 + n div 262144, 128 + n div 4096 mod 64, 128 + n div 64 mod 64, 128 + n mod 64])"

definition utf8_code_point :: "nat \<Rightarrow> bool" where
  "utf8_code_point n \<longleftrightarrow> n \<le> 0x10ffff \<and> \<not> (0xd800 \<le> n \<and> n \<le> 0xdfff)"

section \<open>Decoding and encoding in arithmetic\<close>

lemma nat_or_tag:
  fixes x :: nat
  shows "x < 32 \<Longrightarrow> x OR 192 = x + 192" "x < 64 \<Longrightarrow> x OR 128 = x + 128"
    "x < 16 \<Longrightarrow> x OR 224 = x + 224" "x < 8 \<Longrightarrow> x OR 240 = x + 240"
  using or_push_bit[of x 5 6] or_push_bit[of x 6 2] or_push_bit[of x 4 14] or_push_bit[of x 3 30]
  by (simp_all add: push_bit_eq_mult)

lemma unat_valid: "is_code_point_valid cp \<longleftrightarrow> utf8_code_point (unat cp)"
  by (simp add: is_code_point_valid_def is_surrogate_def CODE_POINT_MAX_def LEAD_SURROGATE_MIN_def
      TRAIL_SURROGATE_MAX_def utf8_code_point_def word_le_nat_alt)

lemma unat_and [simp]: "unat (w AND 0x3f :: 'a::len word) = unat w mod 64"
    "unat (w AND 0x7ff :: 'a::len word) = unat w mod 0x800"
    "unat (w AND 0xfff :: 'a::len word) = unat w mod 0x1000"
    "unat (w AND 0xffff :: 'a::len word) = unat w mod 0x10000"
    "unat (w AND 0x3ffff :: 'a::len word) = unat w mod 0x40000"
    "unat (w AND 0x1fffff :: 'a::len word) = unat w mod 0x200000"
  using unat_and_mask[of w 6] unat_and_mask[of w 11] unat_and_mask[of w 12] unat_and_mask[of w 16]
    unat_and_mask[of w 18] unat_and_mask[of w 21]
  by (simp_all add: mask_eq_exp_minus_1)

lemma unat_octet: "unat (ucast (w :: 32 word) :: 8 word) = unat w mod 256"
  by (simp add: unsigned_ucast_eq take_bit_eq_mod)

lemma append_octets:
  assumes "is_code_point_valid cp"
  shows "\<exists>bs. utf8_append cp = Inr bs \<and> map unat bs = utf8_octets (unat cp)"
proof -
  have le: "unat cp \<le> 0x10ffff" using assms by (simp add: unat_valid utf8_code_point_def)
  have d: "unat cp div 262144 < 8" using le by linarith
  show ?thesis using assms le d
    by (auto simp: utf8_append_def utf8_octets_def unat_octet word_less_nat_alt unsigned_or_eq
        drop_bit_eq_div unat_div nat_or_tag less_mult_imp_div_less)
qed

lemma is_trail_iff: "is_trail b \<longleftrightarrow> 128 \<le> unat b \<and> unat b < 192"
proof -
  have "is_trail b \<longleftrightarrow> unat b div 64 = 2"
    by (simp add: is_trail_def word_unat_eq_iff drop_bit_eq_div unat_div)
  then show ?thesis by (simp add: div_eq_iff_between)
qed

lemma sequence_length_unat: "sequence_length b =
    (if unat b < 128 then 1 else if 192 \<le> unat b \<and> unat b < 224 then 2
     else if 224 \<le> unat b \<and> unat b < 240 then 3 else if 240 \<le> unat b \<and> unat b < 248 then 4 else 0)"
  by (simp add: sequence_length_def word_less_nat_alt word_unat_eq_iff drop_bit_eq_div unat_div div_eq_iff_between)

lemma unat_add_small: "unat (a :: 32 word) + unat b < 2 ^ 32 \<Longrightarrow> unat (a + b) = unat a + unat b"
  by (simp add: unat_word_ariths)

lemma decode_2:
  fixes a b :: "8 word"
  assumes "unat a = 192 + p" "p < 32" "unat b = 128 + q" "q < 64"
  shows "unat ((push_bit 6 (ucast a) AND 0x7ff) + (ucast b AND 0x3f) :: 32 word) = p * 64 + q"
proof -
  have "(192 + p) * 64 mod 2048 = p * 64" using assms(2) by (intro mod_eqI[where k = 6]) simp_all
  moreover have "(128 + q) mod 64 = q" using assms(4) by (intro mod_eqI[where k = 2]) simp_all
  ultimately show ?thesis using assms by (subst unat_add_small) (simp_all add: unat_lead unat_ucast_up)
qed

lemma decode_3:
  fixes a b c :: "8 word"
  assumes "unat a = 224 + p" "p < 16" "unat b = 128 + q" "q < 64" "unat c = 128 + r" "r < 64"
  shows "unat ((push_bit 12 (ucast a) AND 0xffff) + (push_bit 6 (ucast b) AND 0xfff) + (ucast c AND 0x3f) :: 32 word)
    = p * 4096 + q * 64 + r"
proof -
  have "(224 + p) * 4096 mod 65536 = p * 4096" using assms(2) by (intro mod_eqI[where k = 14]) simp_all
  moreover have "(128 + q) * 64 mod 4096 = q * 64" using assms(4) by (intro mod_eqI[where k = 2]) simp_all
  moreover have "(128 + r) mod 64 = r" using assms(6) by (intro mod_eqI[where k = 2]) simp_all
  ultimately show ?thesis using assms by (simp add: unat_add_small unat_lead unat_ucast_up)
qed

lemma decode_4:
  fixes a b c d :: "8 word"
  assumes "unat a = 240 + p" "p < 8" "unat b = 128 + q" "q < 64" "unat c = 128 + r" "r < 64" "unat d = 128 + s" "s < 64"
  shows "unat ((push_bit 18 (ucast a) AND 0x1fffff) + (push_bit 12 (ucast b) AND 0x3ffff)
     + (push_bit 6 (ucast c) AND 0xfff) + (ucast d AND 0x3f) :: 32 word) = p * 262144 + q * 4096 + r * 64 + s"
proof -
  have "(240 + p) * 262144 mod 2097152 = p * 262144" using assms(2) by (intro mod_eqI[where k = 30]) simp_all
  moreover have "(128 + q) * 4096 mod 262144 = q * 4096" using assms(4) by (intro mod_eqI[where k = 2]) simp_all
  moreover have "(128 + r) * 64 mod 4096 = r * 64" using assms(6) by (intro mod_eqI[where k = 2]) simp_all
  moreover have "(128 + s) mod 64 = s" using assms(8) by (intro mod_eqI[where k = 2]) simp_all
  ultimately show ?thesis using assms by (simp add: unat_add_small unat_lead unat_ucast_up)
qed

lemma trailE:
  assumes "is_trail b" obtains q where "unat b = 128 + q" "q < 64"
  using assms that[of "unat b - 128"] by (auto simp: is_trail_iff)

lemma utf_bind_Inr [simp]: "utf_bind m f = Inr y \<longleftrightarrow> (\<exists>x. m = Inr x \<and> f x = Inr y)"
  by (cases m) auto

lemma increase_safely_Inr [simp]:
  "increase_safely it = Inr it' \<longleftrightarrow> (\<exists>b rest. tl it = b # rest \<and> is_trail b \<and> it' = b # rest)"
  by (auto simp: increase_safely_def split: list.splits)

lemma get_sequence_2_iff: "get_sequence_2 (a # t) = Inr (cp, it) \<longleftrightarrow>
    (\<exists>b rest. t = b # rest \<and> is_trail b \<and> it = b # rest
      \<and> cp = (push_bit 6 (ucast a) AND 0x7ff) + (ucast b AND 0x3f))"
  by (auto simp: get_sequence_2_def Let_def)

lemma get_sequence_3_iff: "get_sequence_3 (a # t) = Inr (cp, it) \<longleftrightarrow>
    (\<exists>b c rest. t = b # c # rest \<and> is_trail b \<and> is_trail c \<and> it = c # rest
      \<and> cp = (push_bit 12 (ucast a) AND 0xffff) + (push_bit 6 (ucast b) AND 0xfff) + (ucast c AND 0x3f))"
  by (auto simp: get_sequence_3_def Let_def)

lemma get_sequence_4_iff: "get_sequence_4 (a # t) = Inr (cp, it) \<longleftrightarrow>
    (\<exists>b c d rest. t = b # c # d # rest \<and> is_trail b \<and> is_trail c \<and> is_trail d \<and> it = d # rest
      \<and> cp = (push_bit 18 (ucast a) AND 0x1fffff) + (push_bit 12 (ucast b) AND 0x3ffff)
          + (push_bit 6 (ucast c) AND 0xfff) + (ucast d AND 0x3f))"
  by (auto simp: get_sequence_4_def Let_def)

lemma sequence_length_le: "sequence_length a \<in> {0, 1, 2, 3, 4}"
  by (simp add: sequence_length_def)

lemma validate_next_iff: "validate_next (a # t) = Inr (cp, rest) \<longleftrightarrow>
    is_code_point_valid cp \<and> \<not> is_overlong_sequence cp (sequence_length a) \<and>
    (sequence_length a = 1 \<and> cp = ucast a \<and> rest = t
     \<or> sequence_length a = 2 \<and> (\<exists>it. get_sequence_2 (a # t) = Inr (cp, it) \<and> rest = tl it)
     \<or> sequence_length a = 3 \<and> (\<exists>it. get_sequence_3 (a # t) = Inr (cp, it) \<and> rest = tl it)
     \<or> sequence_length a = 4 \<and> (\<exists>it. get_sequence_4 (a # t) = Inr (cp, it) \<and> rest = tl it))"
  using sequence_length_le[of a]
  by (auto simp: validate_next_def get_sequence_1_def Let_def)

lemma overlong_octets:
  assumes "\<not> is_overlong_sequence cp n"
  shows "n = 1 \<Longrightarrow> unat cp < 0x80 \<or> 0x10000 \<le> unat cp"
    "n = 2 \<Longrightarrow> 0x80 \<le> unat cp \<and> (unat cp < 0x800 \<or> 0x10000 \<le> unat cp)"
    "n = 3 \<Longrightarrow> 0x800 \<le> unat cp"
    "n = 4 \<Longrightarrow> 0x10000 \<le> unat cp"
  using assms unfolding is_overlong_sequence_def word_less_nat_alt by (simp_all split: if_splits)

lemma sequence_lengthD:
  "sequence_length a = Suc 0 \<Longrightarrow> unat a < 128"
  "sequence_length a = 2 \<Longrightarrow> \<exists>p. unat a = 192 + p \<and> p < 32"
  "sequence_length a = 3 \<Longrightarrow> \<exists>p. unat a = 224 + p \<and> p < 16"
  "sequence_length a = 4 \<Longrightarrow> \<exists>p. unat a = 240 + p \<and> p < 8"
  by (auto simp: sequence_length_unat nat_le_iff_add split: if_splits)

lemma octets_2:
  assumes "p < 32" "q < 64" "128 \<le> p * 64 + q"
  shows "utf8_octets (p * 64 + q) = [192 + p, 128 + q]"
proof -
  have "(p * 64 + q) div 64 = p" by (rule div_nat_eqI) (use assms in auto)
  moreover have "(p * 64 + q) mod 64 = q" by (rule mod_eqI[where k = p]) (use assms in auto)
  ultimately show ?thesis using assms by (simp add: utf8_octets_def)
qed

lemma octets_3:
  assumes "p < 16" "q < 64" "r < 64" "0x800 \<le> p * 4096 + q * 64 + r"
  shows "utf8_octets (p * 4096 + q * 64 + r) = [224 + p, 128 + q, 128 + r]"
proof -
  let ?n = "p * 4096 + q * 64 + r"
  have "?n div 4096 = p" by (rule div_nat_eqI) (use assms in auto)
  moreover have "?n div 64 = p * 64 + q" by (rule div_nat_eqI) (use assms in auto)
  moreover have "(p * 64 + q) mod 64 = q" by (rule mod_eqI[where k = p]) (use assms in auto)
  moreover have "?n mod 64 = r" by (rule mod_eqI[where k = "p * 64 + q"]) (use assms in auto)
  ultimately show ?thesis using assms by (simp add: utf8_octets_def)
qed

lemma octets_4:
  assumes "p < 8" "q < 64" "r < 64" "s < 64" "0x10000 \<le> p * 262144 + q * 4096 + r * 64 + s"
  shows "utf8_octets (p * 262144 + q * 4096 + r * 64 + s) = [240 + p, 128 + q, 128 + r, 128 + s]"
proof -
  let ?n = "p * 262144 + q * 4096 + r * 64 + s"
  have "?n div 262144 = p" by (rule div_nat_eqI) (use assms in auto)
  moreover have "?n div 4096 = p * 64 + q" by (rule div_nat_eqI) (use assms in auto)
  moreover have "?n div 64 = p * 4096 + q * 64 + r" by (rule div_nat_eqI) (use assms in auto)
  moreover have "(p * 64 + q) mod 64 = q" by (rule mod_eqI[where k = p]) (use assms in auto)
  moreover have "(p * 4096 + q * 64 + r) mod 64 = r" by (rule mod_eqI[where k = "p * 64 + q"]) (use assms in auto)
  moreover have "?n mod 64 = s" by (rule mod_eqI[where k = "p * 4096 + q * 64 + r"]) (use assms in auto)
  ultimately show ?thesis using assms by (simp add: utf8_octets_def)
qed

lemma validate_next_sound:
  assumes "validate_next (a # t) = Inr (cp, rest)"
  shows "is_code_point_valid cp \<and> map unat (a # t) = utf8_octets (unat cp) @ map unat rest"
proof -
  have ok: "is_code_point_valid cp" "\<not> is_overlong_sequence cp (sequence_length a)"
    using assms by (auto simp: validate_next_iff)
  consider (1) "sequence_length a = 1" "cp = ucast a" "t = rest"
    | (2) it where "sequence_length a = 2" "get_sequence_2 (a # t) = Inr (cp, it)" "rest = tl it"
    | (3) it where "sequence_length a = 3" "get_sequence_3 (a # t) = Inr (cp, it)" "rest = tl it"
    | (4) it where "sequence_length a = 4" "get_sequence_4 (a # t) = Inr (cp, it)" "rest = tl it"
    using assms unfolding validate_next_iff by blast
  then have "map unat (a # t) = utf8_octets (unat cp) @ map unat rest"
  proof cases
    case 1
    then show ?thesis using sequence_lengthD(1)[of a] by (simp add: utf8_octets_def unat_ucast_up)
  next
    case 2
    obtain p where a: "unat a = 192 + p" "p < 32" using sequence_lengthD(2) 2 by blast
    obtain b where b: "t = b # rest" "is_trail b" "cp = (push_bit 6 (ucast a) AND 0x7ff) + (ucast b AND 0x3f)"
      using 2 by (auto simp: get_sequence_2_iff)
    obtain q where q: "unat b = 128 + q" "q < 64" using b(2) by (rule trailE)
    have "unat cp = p * 64 + q" using decode_2[OF a q] b by simp
    then show ?thesis using overlong_octets(2)[OF ok(2)] 2(1) octets_2[of p q] a b q by simp
  next
    case 3
    obtain p where a: "unat a = 224 + p" "p < 16" using sequence_lengthD(3) 3 by blast
    obtain b c where b: "t = b # c # rest" "is_trail b" "is_trail c"
        "cp = (push_bit 12 (ucast a) AND 0xffff) + (push_bit 6 (ucast b) AND 0xfff) + (ucast c AND 0x3f)"
      using 3 by (auto simp: get_sequence_3_iff)
    obtain q where q: "unat b = 128 + q" "q < 64" using b(2) by (rule trailE)
    obtain r where r: "unat c = 128 + r" "r < 64" using b(3) by (rule trailE)
    have "unat cp = p * 4096 + q * 64 + r" using decode_3[OF a q r] b by simp
    then show ?thesis using overlong_octets(3)[OF ok(2)] 3(1) octets_3[of p q r] a b q r by simp
  next
    case 4
    obtain p where a: "unat a = 240 + p" "p < 8" using sequence_lengthD(4) 4 by blast
    obtain b c d where b: "t = b # c # d # rest" "is_trail b" "is_trail c" "is_trail d"
        "cp = (push_bit 18 (ucast a) AND 0x1fffff) + (push_bit 12 (ucast b) AND 0x3ffff)
          + (push_bit 6 (ucast c) AND 0xfff) + (ucast d AND 0x3f)"
      using 4 by (auto simp: get_sequence_4_iff)
    obtain q where q: "unat b = 128 + q" "q < 64" using b(2) by (rule trailE)
    obtain r where r: "unat c = 128 + r" "r < 64" using b(3) by (rule trailE)
    obtain s where s: "unat d = 128 + s" "s < 64" using b(4) by (rule trailE)
    have "unat cp = p * 262144 + q * 4096 + r * 64 + s" using decode_4[OF a q r s] b by simp
    then show ?thesis using overlong_octets(4)[OF ok(2)] 4(1) octets_4[of p q r s] a b q r s by simp
  qed
  with ok(1) show ?thesis by blast
qed

lemma map_unat_eq: "map unat xs = map unat (ys :: 'a::len word list) \<longleftrightarrow> xs = ys"
  by (rule inj_map_eq_map) (auto intro: injI simp: word_unat_eq_iff)

lemma map_unat_Cons: "map unat it = n # ns \<longleftrightarrow> (\<exists>a t. it = a # t \<and> unat a = n \<and> map unat t = ns)"
  by (cases it) auto

lemma validate_next_complete:
  assumes "is_code_point_valid cp" "map unat it = utf8_octets (unat cp) @ map unat rest"
  shows "validate_next it = Inr (cp, rest)"
proof -
  let ?n = "unat cp"
  have le: "?n \<le> 0x10ffff" using assms(1) by (simp add: unat_valid utf8_code_point_def)
  have dm: "?n = ?n div 64 * 64 + ?n mod 64" by simp
  have dm2: "?n div 64 = ?n div 4096 * 64 + ?n div 64 mod 64"
    using div_mult_mod_eq[of "?n div 64" 64] by (simp flip: div_mult2_eq)
  have dm3: "?n div 4096 = ?n div 262144 * 64 + ?n div 4096 mod 64"
    using div_mult_mod_eq[of "?n div 4096" 64] by (simp flip: div_mult2_eq)
  consider (1) "?n < 0x80" | (2) "0x80 \<le> ?n" "?n < 0x800" | (3) "0x800 \<le> ?n" "?n < 0x10000" | (4) "0x10000 \<le> ?n"
    by linarith
  then show ?thesis
  proof cases
    case 1
    then obtain a where "it = a # rest" "unat a = ?n"
      using assms(2) by (auto simp: utf8_octets_def map_unat_Cons map_unat_eq)
    then show ?thesis using 1 assms(1)
      by (simp add: validate_next_iff sequence_length_unat is_overlong_sequence_def word_less_nat_alt
          word_unat_eq_iff unat_ucast_up)
  next
    case 2
    then obtain a b where it: "it = a # b # rest" "unat a = 192 + ?n div 64" "unat b = 128 + ?n mod 64"
      using assms(2) by (auto simp: utf8_octets_def map_unat_Cons map_unat_eq)
    have "(push_bit 6 (ucast a) AND 0x7ff) + (ucast b AND 0x3f) = cp"
      using decode_2[OF it(2) _ it(3)] 2 dm unfolding word_unat_eq_iff by (simp add: less_mult_imp_div_less)
    then show ?thesis using 2 assms(1) it 
      by (simp add: validate_next_iff get_sequence_2_iff sequence_length_unat is_overlong_sequence_def word_less_nat_alt
          is_trail_iff less_mult_imp_div_less)
  next
    case 3
    then obtain a b c where it: "it = a # b # c # rest" "unat a = 224 + ?n div 4096" "unat b = 128 + ?n div 64 mod 64"
        "unat c = 128 + ?n mod 64"
      using assms(2) by (auto simp: utf8_octets_def map_unat_Cons map_unat_eq)
    have "(push_bit 12 (ucast a) AND 0xffff) + (push_bit 6 (ucast b) AND 0xfff) + (ucast c AND 0x3f) = cp"
      unfolding word_unat_eq_iff
      by (rule trans[OF decode_3[OF it(2) _ it(3) _ it(4)]]) (use 3 dm dm2 in \<open>simp_all add: less_mult_imp_div_less, linarith\<close>)
    then show ?thesis using 3 assms(1) it 
      by (simp add: validate_next_iff get_sequence_3_iff sequence_length_unat is_overlong_sequence_def word_less_nat_alt
          is_trail_iff less_mult_imp_div_less)
  next
    case 4
    have "?n div 262144 < 8" using le by linarith
    moreover obtain a b c d where it: "it = a # b # c # d # rest" "unat a = 240 + ?n div 262144" "unat b = 128 + ?n div 4096 mod 64"
        "unat c = 128 + ?n div 64 mod 64" "unat d = 128 + ?n mod 64"
      using 4 assms(2) by (auto simp: utf8_octets_def map_unat_Cons map_unat_eq)
    ultimately have "(push_bit 18 (ucast a) AND 0x1fffff) + (push_bit 12 (ucast b) AND 0x3ffff)
          + (push_bit 6 (ucast c) AND 0xfff) + (ucast d AND 0x3f) = cp"
      unfolding word_unat_eq_iff
      by (intro trans[OF decode_4[OF it(2) _ it(3) _ it(4) _ it(5)]]) (use dm dm2 dm3 in \<open>simp_all, linarith\<close>)
    then show ?thesis using 4 assms(1) it \<open>?n div 262144 < 8\<close>
      by (simp add: validate_next_iff get_sequence_4_iff sequence_length_unat is_overlong_sequence_def word_less_nat_alt
          is_trail_iff)
  qed
qed

section \<open>Strings\<close>

lemma next_append:
  assumes "utf8_append cp = Inr bs"
  shows "validate_next (bs @ rest) = Inr (cp, rest)"
proof -
  have v: "is_code_point_valid cp" using assms by (auto simp: utf8_append_def split: if_splits)
  then have "map unat (bs @ rest) = utf8_octets (unat cp) @ map unat rest"
    using append_octets[OF v] assms by auto
  with v show ?thesis by (rule validate_next_complete)
qed

lemma append_next:
  assumes "validate_next it = Inr (cp, rest)" "it \<noteq> []"
  shows "\<exists>bs. utf8_append cp = Inr bs \<and> it = bs @ rest \<and> bs \<noteq> []"
proof -
  have v: "is_code_point_valid cp" "map unat it = utf8_octets (unat cp) @ map unat rest"
    using assms validate_next_sound by (cases it; fastforce)+
  then obtain bs where bs: "utf8_append cp = Inr bs" "map unat bs = utf8_octets (unat cp)"
    using append_octets by blast
  with v(2) have "map unat it = map unat (bs @ rest)" by simp
  then have "it = bs @ rest" unfolding map_unat_eq .
  moreover have "bs \<noteq> []" using bs(1) by (auto simp: utf8_append_def split: if_splits)
  ultimately show ?thesis using bs(1) by blast
qed

lemma append_not_empty: "utf8_append cp = Inr bs \<Longrightarrow> bs \<noteq> []"
  by (auto simp: utf8_append_def split: if_splits)

lemma utf8_next_Inr [simp]: "utf8_next it = Inr r \<longleftrightarrow> validate_next it = Inr r"
  by (auto simp: utf8_next_def split: sum.splits utf_error.splits)

lemma utf8to32_step:
  "it \<noteq> [] \<Longrightarrow> validate_next it = Inr (cp, rest) \<Longrightarrow>
    utf8to32 it = (case utf8to32 rest of Inl e \<Rightarrow> Inl e | Inr cps \<Rightarrow> Inr (cp # cps))"
  by (subst utf8to32.simps) (simp add: utf8_next_def)

lemma find_invalid_step:
  "it \<noteq> [] \<Longrightarrow> validate_next it = Inr (cp, rest) \<Longrightarrow> find_invalid it = find_invalid rest"
  by (subst find_invalid.simps) simp

lemma encode_decode: "utf32to8 cps = Inr bs \<Longrightarrow> utf8to32 bs = Inr cps"
proof (induction cps arbitrary: bs)
  case Nil
  then show ?case by (simp add: utf8to32.simps)
next
  case (Cons cp cps)
  then obtain b rest where b: "utf8_append cp = Inr b" "utf32to8 cps = Inr rest" "bs = b @ rest"
    by (auto split: sum.splits)
  have "validate_next bs = Inr (cp, rest)" "bs \<noteq> []" using next_append[OF b(1)] append_not_empty[OF b(1)] b(3) by auto
  then show ?case using Cons.IH[OF b(2)] by (simp add: utf8to32_step)
qed

lemma decode_encode: "utf8to32 bs = Inr cps \<Longrightarrow> utf32to8 cps = Inr bs"
proof (induction bs arbitrary: cps rule: utf8to32.induct)
  case (1 it)
  show ?case
  proof (cases "it = []")
    case True
    then show ?thesis using 1(2) by (simp add: utf8to32.simps)
  next
    case False
    then obtain cp rest cps' where s: "validate_next it = Inr (cp, rest)" "utf8to32 rest = Inr cps'" "cps = cp # cps'"
      using 1(2) by (subst (asm) utf8to32.simps) (auto split: sum.splits)
    then show ?thesis using 1(1)[OF False _ refl] append_next[OF s(1) False] by auto
  qed
qed

lemma find_invalid_decode: "find_invalid bs = [] \<longleftrightarrow> (\<exists>cps. utf8to32 bs = Inr cps)"
proof (induction bs rule: find_invalid.induct)
  case (1 it)
  show ?case
  proof (cases "it = []")
    case True
    then show ?thesis by (simp add: utf8to32.simps find_invalid.simps)
  next
    case False
    show ?thesis
    proof (cases "validate_next it")
      case (Inl e)
      moreover have "utf8_next it \<noteq> Inr r" for r using Inl by simp
      ultimately show ?thesis using False
        by (subst utf8to32.simps, subst find_invalid.simps) (auto split: sum.splits)
    next
      case (Inr r)
      obtain cp rest where r: "r = (cp, rest)" by force
      show ?thesis using 1[OF False Inr r[symmetric]] False Inr r
        by (auto simp: utf8to32_step find_invalid_step split: sum.splits)
    qed
  qed
qed

lemma find_invalid_split: "\<exists>cps p. utf32to8 cps = Inr p \<and> bs = p @ find_invalid bs"
proof (induction bs rule: find_invalid.induct)
  case (1 it)
  show ?case
  proof (cases "it = [] \<or> (\<exists>e. validate_next it = Inl e)")
    case True
    then have "utf32to8 [] = Inr [] \<and> it = [] @ find_invalid it" by (subst find_invalid.simps) auto
    then show ?thesis by blast
  next
    case False
    then obtain cp rest where n: "validate_next it = Inr (cp, rest)" "it \<noteq> []" by (cases "validate_next it") auto
    obtain cps p where p: "utf32to8 cps = Inr p" "rest = p @ find_invalid rest" using 1[OF n(2,1) refl] by blast
    obtain b where b: "utf8_append cp = Inr b" "it = b @ rest" using append_next[OF n] by blast
    have "utf32to8 (cp # cps) = Inr (b @ p)" using b p by simp
    moreover have "it = (b @ p) @ find_invalid it" using b(2) p(2) find_invalid_step[OF n(2,1)] by simp
    ultimately show ?thesis by blast
  qed
qed

lemma encode_append: "utf32to8 xs = Inr p \<Longrightarrow> utf32to8 ys = Inr q \<Longrightarrow> utf32to8 (xs @ ys) = Inr (p @ q)"
  by (induction xs arbitrary: p) (auto split: sum.splits)

lemma valid_prefix: "\<exists>cps. utf32to8 cps = Inr (take (length bs - length (find_invalid bs)) bs)"
proof -
  obtain cps p where "utf32to8 cps = Inr p" "bs = p @ find_invalid bs" using find_invalid_split by blast
  moreover from this(2) have "take (length bs - length (find_invalid bs)) bs = p"
    by (metis append_eq_conv_conj diff_add_inverse2 length_append)
  ultimately show ?thesis by auto
qed

lemma prune_loop_valid: "\<exists>cps. utf32to8 cps = Inr (prune_loop itr)"
proof (induction itr rule: prune_loop.induct)
  case (1 itr)
  show ?case
  proof (cases "itr = []")
    case True
    then have "utf32to8 [] = Inr (prune_loop itr)" by (simp add: prune_loop.simps)
    then show ?thesis by blast
  next
    case False
    then obtain cps where "utf32to8 cps = Inr (prune_loop (find_invalid (tl itr)))" using 1 by blast
    then show ?thesis using encode_append valid_prefix[of "tl itr"] False
      by (subst prune_loop.simps) (simp add: Let_def, blast)
  qed
qed

section \<open>Properties\<close>

text \<open>C29: Decoding octets gives a list of code points exactly when encoding that list gives the octets, and a string passes the validity check exactly when it is the encoding of some list of code points.\<close>

theorem utf8_decodes_exactly_encodings:
  "(utf8to32 bs = Inr cps \<longleftrightarrow> utf32to8 cps = Inr bs) \<and> (is_valid_utf8 bs \<longleftrightarrow> (\<exists>cps. utf32to8 cps = Inr bs))"
  using encode_decode decode_encode find_invalid_decode unfolding is_valid_utf8_def by blast

text \<open>C30: Pruning always gives valid UTF-8, and leaves a string as it is exactly when it was valid.\<close>

theorem prune_gives_utf8:
  "is_valid_utf8 (prune_invalid_utf8 bs) \<and> (prune_invalid_utf8 bs = bs \<longleftrightarrow> is_valid_utf8 bs)"
proof -
  have "\<exists>cps. utf32to8 cps = Inr (prune_invalid_utf8 bs)"
  proof (cases "find_invalid bs = []")
    case True
    then show ?thesis using find_invalid_decode decode_encode by (simp add: prune_invalid_utf8_def) blast
  next
    case False
    then show ?thesis using valid_prefix[of bs] prune_loop_valid[of "find_invalid bs"] encode_append
      by (simp add: prune_invalid_utf8_def Let_def) blast
  qed
  then have "is_valid_utf8 (prune_invalid_utf8 bs)"
    using encode_decode find_invalid_decode unfolding is_valid_utf8_def by blast
  moreover have "is_valid_utf8 bs \<Longrightarrow> prune_invalid_utf8 bs = bs"
    by (simp add: is_valid_utf8_def prune_invalid_utf8_def)
  ultimately show ?thesis by metis
qed

end
