(* ===== verification/Fc_Sha256.thy ===== *)
theory Fc_Sha256
  imports Xgt_Prelude
begin

text \<open>
  The logarithm of a digest, \<open>sha256::clz\<close> and \<open>sha256::approx_log_32\<close> of
  \<open>libraries/fc/src/crypto/sha256.cpp\<close>, on which proof of work is compared.  A digest is its
  32 octets.  The lemmas show that the result is the binary logarithm of the digest with 24 bits
  of mantissa, and that it orders digests the way their values do.
\<close>

type_synonym digest = bytes

text \<open>The table of leading zero bits of an octet.\<close>

definition char2lzbits :: "nat list" where
  "char2lzbits = [8, 7] @ replicate 2 6 @ replicate 4 5 @ replicate 8 4 @ replicate 16 3
     @ replicate 32 2 @ replicate 64 1 @ replicate 128 0"

text \<open>The loop stops at the first octet that is not zero, or returns \<open>0x100\<close>.\<close>

fun clz_loop :: "nat \<Rightarrow> bytes \<Rightarrow> nat" where
  "clz_loop lzbits [] = 0x100"
| "clz_loop lzbits (c # bs) =
    (let lzbits = lzbits + char2lzbits ! unat c in if c \<noteq> 0 then lzbits else clz_loop lzbits bs)"

definition clz :: "digest \<Rightarrow> 16 word" where
  "clz h = of_nat (clz_loop 0 h)"

definition octet_at :: "digest \<Rightarrow> nat \<Rightarrow> 32 word" where
  "octet_at h i = (if i < length h then ucast (h ! i) else 0)"

definition approx_log_32 :: "digest \<Rightarrow> 32 word" where
  "approx_log_32 h =
    (let lzbits = clz h in
     if lzbits \<ge> 0x100 then 0
     else
       let nzbits = ucast (0xFF - lzbits) :: 8 word;
           offset = unat (drop_bit 3 lzbits);
           y = push_bit 0x18 (octet_at h offset)
             OR push_bit 0x10 (octet_at h (offset + 1))
             OR push_bit 0x08 (octet_at h (offset + 2))
             OR octet_at h (offset + 3);
           y = drop_bit (unat (nzbits AND 7)) y;
           y = y XOR push_bit 0x18 1
       in y OR push_bit 0x18 (ucast nzbits))"

section \<open>Reference\<close>

text \<open>A digest as the number its octets spell, most significant first.\<close>

fun digest_value :: "bytes \<Rightarrow> nat" where
  "digest_value [] = 0"
| "digest_value (b # bs) = unat b * 256 ^ length bs + digest_value bs"

fun floor_log2 :: "nat \<Rightarrow> nat" where
  "floor_log2 n = (if n < 2 then 0 else Suc (floor_log2 (n div 2)))"

declare floor_log2.simps [simp del]

definition log_32 :: "nat \<Rightarrow> nat" where
  "log_32 n = (let nz = floor_log2 n in nz * 2 ^ 24 + (n * 2 ^ 24 div 2 ^ nz - 2 ^ 24))"

lemma floor_log2_eqI: "2 ^ k \<le> n \<Longrightarrow> n < 2 ^ Suc k \<Longrightarrow> floor_log2 n = k"
proof (induction k arbitrary: n)
  case 0
  then show ?case by (simp add: floor_log2.simps)
next
  case (Suc k)
  then have "2 ^ k \<le> n div 2" "n div 2 < 2 ^ Suc k" "\<not> n < 2"
    by (simp_all add: less_mult_imp_div_less mult.commute div_le_mono)
       (use Suc.prems in \<open>simp_all, use one_le_power[of "2::nat" k] in linarith\<close>)
  with Suc.IH[of "n div 2"] show ?case by (simp add: floor_log2.simps)
qed

lemma floor_log2_bounds: "0 < n \<Longrightarrow> 2 ^ floor_log2 n \<le> n \<and> n < 2 ^ Suc (floor_log2 n)"
proof (induction n rule: floor_log2.induct)
  case (1 n)
  show ?case
  proof (cases "n < 2")
    case False
    then have "2 ^ floor_log2 (n div 2) \<le> n div 2 \<and> n div 2 < 2 ^ Suc (floor_log2 (n div 2))" using 1 by auto
    then show ?thesis using False by (subst (1 2) floor_log2.simps) (simp, linarith)
  qed (use 1 in \<open>simp add: floor_log2.simps\<close>)
qed

lemma char2lzbits_nth:
  assumes "c < 256"
  shows "char2lzbits ! c = (if c < 1 then 8 else if c < 2 then 7 else if c < 4 then 6 else if c < 8 then 5
    else if c < 16 then 4 else if c < 32 then 3 else if c < 64 then 2 else if c < 128 then 1 else 0)"
  using assms unfolding char2lzbits_def nth_append by (simp add: nth_Cons' less_diff_conv2)

lemma char2lzbits_bound:
  assumes "0 < c" "c < 256"
  shows "char2lzbits ! c \<le> 7 \<and> 2 ^ (7 - char2lzbits ! c) \<le> c \<and> c < 2 ^ (8 - char2lzbits ! c)"
  unfolding char2lzbits_nth[OF assms(2)] using assms by simp

lemma digest_value_less: "digest_value bs < 256 ^ length bs"
proof (induction bs)
  case (Cons b bs)
  have "unat b + 1 \<le> 256" using unsigned_less[of b, where 'a = nat] by simp
  then have "(unat b + 1) * 256 ^ length bs \<le> 256 * 256 ^ length bs" by (rule mult_le_mono1)
  with Cons have "unat b * 256 ^ length bs + digest_value bs < 256 * 256 ^ length bs"
    unfolding add_mult_distrib by linarith
  then show ?case by simp
qed simp

lemma digest_value_append: "digest_value (xs @ ys) = digest_value xs * 256 ^ length ys + digest_value ys"
  by (induction xs) (auto simp: power_add algebra_simps)

lemma digest_value_take:
  assumes "k \<le> length xs"
  shows "digest_value xs div 256 ^ (length xs - k) = digest_value (take k xs)"
proof -
  have "digest_value xs = digest_value (take k xs) * 256 ^ (length xs - k) + digest_value (drop k xs)"
    using digest_value_append[of "take k xs" "drop k xs"] by simp
  moreover have "digest_value (drop k xs) < 256 ^ (length xs - k)"
    using digest_value_less[of "drop k xs"] by simp
  ultimately show ?thesis by simp
qed

lemma clz_loop_split:
  "clz_loop l (replicate k 0 @ c # rest) = (if c = 0 then clz_loop (l + 8 * k) (c # rest) else l + 8 * k + char2lzbits ! unat c)"
  by (induction k arbitrary: l) (simp_all add: Let_def char2lzbits_def algebra_simps)

lemma clz_loop_zero: "clz_loop l (replicate k 0) = 0x100"
  by (induction k arbitrary: l) (simp_all add: Let_def)

lemma leading_zeros:
  "bs = replicate (length bs) 0 \<or> (\<exists>k c rest. bs = replicate k 0 @ c # rest \<and> c \<noteq> (0 :: 8 word))"
proof (induction bs)
  case (Cons b bs)
  show ?case
  proof (cases "b = 0")
    case True
    have "b # replicate k 0 @ c # rest = replicate (Suc k) 0 @ c # rest" for k c rest using True by simp
    with Cons True show ?thesis by (metis length_Cons replicate_Suc)
  next
    case False
    then have "b # bs = replicate 0 0 @ b # bs" by simp
    with False show ?thesis by blast
  qed
qed simp

lemma digest_value_replicate [simp]: "digest_value (replicate k 0) = 0"
  by (induction k) auto

lemma unat_be32:
  fixes a b c d :: "8 word"
  shows "unat (push_bit 24 (ucast a) OR push_bit 16 (ucast b) OR push_bit 8 (ucast c) OR ucast d :: 32 word)
    = unat a * 2 ^ 24 + unat b * 2 ^ 16 + unat c * 2 ^ 8 + unat d"
proof -
  have l: "unat x < 256" for x :: "8 word" using unsigned_less[of x, where 'a = nat] by simp
  have "unat c * 2 ^ 8 OR unat d = unat d + unat c * 2 ^ 8"
    using or_push_bit[of "unat d" 8 "unat c"] l[of d] by (simp add: push_bit_eq_mult or.commute)
  moreover have "unat b * 2 ^ 16 OR (unat d + unat c * 2 ^ 8) = unat d + unat c * 2 ^ 8 + unat b * 2 ^ 16"
    using or_push_bit[of "unat d + unat c * 2 ^ 8" 16 "unat b"] l[of d] l[of c] by (simp add: push_bit_eq_mult or.commute)
  moreover have "unat a * 2 ^ 24 OR (unat d + unat c * 2 ^ 8 + unat b * 2 ^ 16)
      = unat d + unat c * 2 ^ 8 + unat b * 2 ^ 16 + unat a * 2 ^ 24"
    using or_push_bit[of "unat d + unat c * 2 ^ 8 + unat b * 2 ^ 16" 24 "unat a"] l[of d] l[of c] l[of b]
    by (simp add: push_bit_eq_mult or.commute)
  ultimately show ?thesis by (simp add: unsigned_or_eq unat_lead unat_ucast_up)
qed

lemma unat_drop_bit: "unat (drop_bit n (w :: 'a::len word)) = unat w div 2 ^ n"
  using unat_drop_bit_eq[of n w] drop_bit_eq_div[of n "unat w"] by metis

lemma take_4: "4 \<le> length x \<Longrightarrow> take 4 x = [x ! 0, x ! 1, x ! 2, x ! 3]"
  by (auto simp: numeral_eq_Suc Suc_le_length_iff)

lemma octets_value:
  assumes "h = replicate k 0 @ c # rest" "length h = 32"
  shows "unat (push_bit 24 (octet_at h k) OR push_bit 16 (octet_at h (k + 1)) OR push_bit 8 (octet_at h (k + 2))
      OR octet_at h (k + 3)) = digest_value h * 2 ^ 24 div 256 ^ (31 - k)"
proof -
  let ?x = "(c # rest) @ [0, 0, 0]"
  have k: "k + length rest = 31" using assms by simp
  have o: "octet_at h (k + j) = ucast (?x ! j)" if "j < 4" for j
  proof (cases "j < length (c # rest)")
    case True
    then have "?x ! j = (c # rest) ! j" by (simp only: nth_append if_True)
    with True show ?thesis using assms k by (simp add: octet_at_def nth_append)
  next
    case False
    then have "?x ! j = 0" using that nth_append[of "c # rest" "[0, 0, 0]" j] by (auto simp: nth_Cons' not_less)
    then show ?thesis using False assms k by (simp add: octet_at_def)
  qed
  have "digest_value h * 2 ^ 24 = digest_value ?x"
    by (simp add: assms(1) digest_value_append del: append_Cons)
  moreover have "31 - k = length ?x - 4" using k by simp
  ultimately have "digest_value h * 2 ^ 24 div 256 ^ (31 - k) = digest_value (take 4 ?x)"
    using digest_value_take[of 4 ?x] by simp
  moreover have "take 4 ?x = [?x ! 0, ?x ! 1, ?x ! 2, ?x ! 3]" by (rule take_4) simp
  then have "digest_value (take 4 ?x) = unat (?x ! 0) * 2 ^ 24 + unat (?x ! 1) * 2 ^ 16 + unat (?x ! 2) * 2 ^ 8 + unat (?x ! 3)"
    by (simp only: digest_value.simps) simp
  ultimately show ?thesis using o[of 0] o[of 1] o[of 2] o[of 3] unat_be32 by simp
qed

lemma leading_octet:
  assumes h: "h = replicate k 0 @ c # rest" "c \<noteq> 0" "length h = 32"
  defines "t \<equiv> char2lzbits ! unat c"
  shows "t \<le> 7" "k \<le> 31" "clz h = of_nat (8 * k + t)"
    and "floor_log2 (digest_value h) = 8 * (31 - k) + (7 - t)" "0 < digest_value h"
proof -
  have c: "0 < unat c" "unat c < 256" using h(2) unsigned_less[of c, where 'a = nat]
    by (simp_all add: unat_gt_0)
  have t: "t \<le> 7" "2 ^ (7 - t) \<le> unat c" "unat c + 1 \<le> 2 ^ (8 - t)"
    using char2lzbits_bound[OF c] unfolding t_def by simp_all
  have m: "length rest = 31 - k" "k \<le> 31" using h by simp_all
  have v: "digest_value h = unat c * 256 ^ (31 - k) + digest_value rest"
    by (simp add: h(1) digest_value_append m)
  have r: "digest_value rest < 256 ^ (31 - k)" using digest_value_less[of rest] m by simp
  have p: "(256::nat) ^ (31 - k) = 2 ^ (8 * (31 - k))" by (simp add: power_mult)
  have "2 ^ (8 * (31 - k) + (7 - t)) \<le> unat c * 256 ^ (31 - k)"
    using mult_le_mono1[OF t(2), of "256 ^ (31 - k)"] by (simp add: p power_add mult.commute)
  then have lo: "2 ^ (8 * (31 - k) + (7 - t)) \<le> digest_value h" by (simp add: v)
  have "digest_value h < (unat c + 1) * 256 ^ (31 - k)" using r by (simp add: v)
  also have "\<dots> \<le> 2 ^ (8 - t) * 256 ^ (31 - k)" using t(3) by (rule mult_le_mono1)
  also have "\<dots> = 2 ^ Suc (8 * (31 - k) + (7 - t))"
    using t(1) by (simp only: p power_add Suc_diff_le[of t 7, simplified] power_Suc ac_simps)
  finally show "floor_log2 (digest_value h) = 8 * (31 - k) + (7 - t)"
    using lo by (intro floor_log2_eqI)
  show "0 < digest_value h" using c(1) by (simp add: v)
  show "t \<le> 7" "k \<le> 31" by (rule t(1), rule m(2))
  show "clz h = of_nat (8 * k + t)" using h clz_loop_split[of 0 k c rest] by (simp add: clz_def t_def)
qed

lemma approx_log_32_refines: 
  assumes "length h = 32"
  shows "unat (approx_log_32 h) = log_32 (digest_value h)"
proof -
  consider "h = replicate 32 0" | k c rest where "h = replicate k 0 @ c # rest" "c \<noteq> 0"
    using leading_zeros[of h] assms by auto
  then show ?thesis
  proof cases
    case 1
    then show ?thesis by (simp add: approx_log_32_def clz_def clz_loop_zero log_32_def floor_log2.simps)
  next
    case 2
    define t where "t = char2lzbits ! unat c"
    note l = leading_octet[OF 2 assms, folded t_def]
    let ?L = "8 * k + t"  let ?nz = "255 - ?L"
    have nz: "?nz = 8 * (31 - k) + (7 - t)" "?L \<le> 255" using l(1,2) by auto
    have u: "unat (clz h) = ?L" using nz(2) by (simp only: l(3) unat_of_nat) simp
    have "unat (0xFF - clz h) = ?nz"
      using nz(2) by (subst unat_sub) (simp_all add: word_le_nat_alt u)
    then have n1: "unat (ucast (0xFF - clz h) :: 8 word) = ?nz"
      by (simp add: unsigned_ucast_eq take_bit_eq_mod)
    have n2: "unat (drop_bit 3 (clz h)) = k" using l(1) by (simp add: drop_bit_eq_div unat_div u)
    have n3: "unat (ucast (0xFF - clz h) AND 7 :: 8 word) = 7 - t"
      using unat_and_mask[of "ucast (0xFF - clz h) :: 8 word" 3] n1 nz(1)
        mod_eqI[of ?nz "7 - t" "31 - k" 8] by (simp add: mask_eq_exp_minus_1)
    let ?V = "digest_value h" and ?y = "push_bit 24 (octet_at h k) OR push_bit 16 (octet_at h (k + 1))
      OR push_bit 8 (octet_at h (k + 2)) OR octet_at h (k + 3)"
    define q where "q = ?V * 2 ^ 24 div 2 ^ ?nz"
    have "(256::nat) ^ (31 - k) * 2 ^ (7 - t) = 2 ^ ?nz" by (simp add: nz(1) power_add power_mult)
    then have y: "unat (drop_bit (7 - t) ?y) = q"
      using octets_value[OF 2(1) assms] unfolding q_def by (simp only: unat_drop_bit flip: div_mult2_eq)
    have "2 ^ ?nz \<le> ?V" "?V < 2 ^ Suc ?nz" using floor_log2_bounds[OF l(5)] l(4) nz(1) by simp_all
    then have q: "2 ^ 24 \<le> q" "q < 2 ^ 24 + 2 ^ 24" unfolding q_def
      by (simp_all add: less_eq_div_iff_mult_less_eq div_less_iff_less_mult)
    have x: "q XOR 2 ^ 24 = q - 2 ^ 24"
      using xor_push_bit[of "q - 2 ^ 24" 24 1] q by (simp add: push_bit_eq_mult)
    have o: "(q - 2 ^ 24) OR push_bit 24 ?nz = q - 2 ^ 24 + ?nz * 2 ^ 24"
      using or_push_bit[of "q - 2 ^ 24" 24 ?nz] q by (simp add: push_bit_eq_mult)
    define Y where "Y = drop_bit (7 - t) ?y"
    have a: "approx_log_32 h = (Y XOR push_bit 24 1) OR push_bit 24 (ucast (ucast (0xFF - clz h) :: 8 word))"
      using nz(2) unfolding Y_def by (simp add: approx_log_32_def Let_def n2 n3 word_le_nat_alt u)
    have "unat (push_bit 24 1 :: 32 word) = 2 ^ 24" by simp
    moreover have "unat (push_bit 24 (ucast (ucast (0xFF - clz h) :: 8 word)) :: 32 word) = push_bit 24 ?nz"
      using unat_lead[of 24 "ucast (0xFF - clz h)"] n1 by (simp add: push_bit_eq_mult)
    ultimately have "unat (approx_log_32 h) = (q XOR 2 ^ 24) OR push_bit 24 ?nz"
      using y[folded Y_def] by (simp only: a unsigned_or_eq unsigned_xor_eq)
    then show ?thesis using l(4) nz(1) x o by (simp add: log_32_def Let_def q_def)
  qed
qed

lemma log_32_mono:
  assumes "a \<le> b" shows "log_32 a \<le> log_32 b"
proof (cases "0 < a")
  case False
  then show ?thesis by (simp add: log_32_def floor_log2.simps[of 0])
next
  case True
  let ?p = "floor_log2 a" and ?q = "floor_log2 b"
  have A: "2 ^ ?p \<le> a" "a < 2 ^ Suc ?p" and B: "2 ^ ?q \<le> b" "b < 2 ^ Suc ?q"
    using floor_log2_bounds[OF True] floor_log2_bounds[of b] True assms by auto
  have "(2::nat) ^ ?p < 2 ^ Suc ?q" using A(1) B(2) assms by linarith
  then have "?p < Suc ?q" by (rule power_less_imp_less_exp[rotated]) simp
  then consider "?p = ?q" | "Suc ?p \<le> ?q" by linarith
  then show ?thesis
  proof cases
    case 1
    then show ?thesis using assms by (simp add: log_32_def Let_def div_le_mono diff_le_mono)
  next
    case 2
    have "a * 2 ^ 24 div 2 ^ ?p < 2 ^ 25" using A(2) by (simp add: div_less_iff_less_mult)
    then have "log_32 a \<le> ?p * 2 ^ 24 + 2 ^ 24" by (simp add: log_32_def Let_def)
    also have "\<dots> \<le> ?q * 2 ^ 24" using 2 by simp
    also have "\<dots> \<le> log_32 b" by (simp add: log_32_def Let_def)
    finally show ?thesis .
  qed
qed

section \<open>Properties\<close>

text \<open>C31: The logarithm of a digest of 32 octets is exactly the integer binary logarithm of its value in the upper eight bits and the next 24 bits below the leading one.\<close>

theorem approx_log_32_exact:
  assumes "length h = 32"
  shows "unat (approx_log_32 h) = log_32 (digest_value h)"
  using assms by (rule approx_log_32_refines)

theorem approx_log_32_exact_witness:
  "length (replicate 31 0 @ [5 :: 8 word]) = 32 \<and> unat (approx_log_32 (replicate 31 0 @ [5])) = 2 * 2 ^ 24 + 2 ^ 22"
  using approx_log_32_exact[of "replicate 31 0 @ [5]"]
  by (simp add: digest_value_append log_32_def floor_log2.simps Let_def)

text \<open>A digest with a smaller value never has a greater logarithm, so comparing logarithms never prefers the smaller amount of work.\<close>

theorem approx_log_32_orders_work:
  assumes "length h = 32" "length h' = 32" "digest_value h \<le> digest_value h'"
  shows "approx_log_32 h \<le> approx_log_32 h'"
  using assms log_32_mono by (simp add: word_le_nat_alt approx_log_32_refines)

theorem approx_log_32_orders_work_witness:
  "digest_value (replicate 31 0 @ [5]) \<le> digest_value (replicate 31 0 @ [9])
     \<and> approx_log_32 (replicate 31 0 @ [5]) \<le> approx_log_32 (replicate 31 0 @ [9])"
  using approx_log_32_orders_work[of "replicate 31 0 @ [5]" "replicate 31 0 @ [9]"]
  by (simp add: digest_value_append)

end
