(* ===== verification/Xgt_Operations.thy ===== *)
theory Xgt_Operations
  imports Asset_Price Authority Utf8 Fc_Sha256
begin

text \<open>
  The operations of the chain: the structures of
  \<open>libraries/protocol/include/xgt/protocol/xgt_operations.hpp\<close>, \<open>xgt_virtual_operations.hpp\<close>,
  \<open>legacy_asset.hpp\<close>, \<open>version.hpp\<close> and \<open>block_header.hpp\<close>, and the validation functions of
  \<open>xgt_operations.cpp\<close>, \<open>xgt_required_actions.cpp\<close> and \<open>validation.hpp\<close>.

  The hash functions and the elliptic curve come from libraries outside the repository and
  \<open>fc::json::is_valid\<close> is not modelled; they are the fields of \<open>proto_env\<close>.  The
  \<open>extensions\<close> sets are always sets of the empty structure, so a unit list stands for them.
\<close>

section \<open>Sequences of checks\<close>

text \<open>A function body made of checks: the first one that throws decides.\<close>

fun res_all :: "unit result list \<Rightarrow> unit result" where
  "res_all [] = Inr ()"
| "res_all (m # ms) = res_bind m (\<lambda>_. res_all ms)"

lemma res_all_ok [result_simps]: "res_all ms = Inr () \<longleftrightarrow> list_all (\<lambda>m. m = Inr ()) ms"
  by (induction ms) (auto simp: result_simps)

lemma fc_assert_ok [result_simps]: "fc_assert b msg = Inr () \<longleftrightarrow> b"
  by (simp add: fc_assert_def)

section \<open>Versions\<close>

type_synonym time_point_sec = "32 word"
type_synonym extensions_type = "unit list"

record version =
  v_num :: "32 word"

definition mk_version :: "8 word \<Rightarrow> 8 word \<Rightarrow> 16 word \<Rightarrow> version" where
  "mk_version m h r =
    (let v = push_bit 8 (0 OR ucast m) :: 32 word;
         v = push_bit 16 (v OR ucast h);
         v = v OR ucast r
     in \<lparr>v_num = v\<rparr>)"

definition major_v :: "version \<Rightarrow> 32 word" where
  "major_v v = drop_bit 24 (v_num v AND 0xFF000000)"

definition minor_v :: "version \<Rightarrow> 32 word" where
  "minor_v v = drop_bit 16 (v_num v AND 0x00FF0000)"

definition rev_v :: "version \<Rightarrow> 32 word" where
  "rev_v v = v_num v AND 0x0000FFFF"

text \<open>A \<open>hardfork_version\<close> is a version whose revision is cleared.\<close>

definition hardfork_version_of :: "version \<Rightarrow> version" where
  "hardfork_version_of v = \<lparr>v_num = v_num v AND 0xFFFF0000\<rparr>"

record hardfork_version_vote =
  hf_version :: version
  hf_time :: time_point_sec

section \<open>Automated actions and block headers\<close>

record xtt_refund_action =
  refund_contributor :: wallet_name
  refund_symbol :: asset_symbol_type
  refund_contribution_id :: "32 word"
  refund_asset :: asset

record xtt_admin_action =
  action_control_account :: wallet_name
  action_symbol :: asset_symbol_type

datatype required_automated_action =
    Xtt_Ico_Launch xtt_admin_action
  | Xtt_Ico_Evaluation xtt_admin_action
  | Xtt_Token_Launch xtt_admin_action
  | Xtt_Refund xtt_refund_action
  | Example_Required wallet_name

datatype optional_automated_action = Example_Optional wallet_name

datatype block_header_extension =
    Void_Extension
  | Version_Extension version
  | Hardfork_Vote_Extension hardfork_version_vote
  | Required_Actions_Extension "required_automated_action list"
  | Optional_Actions_Extension "optional_automated_action list"

type_synonym block_id_type = bytes

record block_header =
  previous :: block_id_type
  timestamp :: time_point_sec
  witness :: string
  transaction_merkle_root :: bytes
  header_extensions :: "block_header_extension list"

record signed_block_header = block_header +
  witness_signature :: bytes

section \<open>Proof of work\<close>

record pow_input =
  worker_account :: wallet_name
  prev_block :: block_id_type
  nonce :: "64 word"

record pow =
  pow_input_of :: pow_input
  pow_summary :: "32 word"

record sha2_pow =
  sha2_input :: pow_input
  sha2_proof :: digest
  sha2_prev_block :: block_id_type
  sha2_summary :: "32 word"

datatype pow_work = Pow_Work pow | Sha2_Pow_Work sha2_pow

text \<open>
  What the checks use of code that is not modelled: \<open>fc::json::is_valid\<close>, \<open>fc::sha256::hash\<close> at
  the types it is called with, signing and recovering a key, the signer and the
  hash of a block header, and the base 58 text of the digest of a string.
\<close>

record proto_env =
  json_is_valid :: "string \<Rightarrow> bool"
  hash_pow_input :: "pow_input \<Rightarrow> digest"
  hash_digest :: "digest \<Rightarrow> digest"
  sign_compact :: "digest \<Rightarrow> digest \<Rightarrow> bytes"
  recover_key :: "bytes \<Rightarrow> digest \<Rightarrow> public_key result"
  hash_signature :: "bytes \<Rightarrow> digest"
  hash_work :: "digest \<Rightarrow> public_key \<Rightarrow> digest"
  header_signee :: "signed_block_header \<Rightarrow> public_key result"
  sha224_header :: "signed_block_header \<Rightarrow> bytes"
  sha256_base58 :: "string \<Rightarrow> string"

section \<open>Block headers\<close>

text \<open>The number of a block is in the first four octets of its identifier, most significant
  first; the rest of the identifier is the rest of the hash, cut to twenty octets.\<close>

definition num_from_id :: "block_id_type \<Rightarrow> 32 word" where
  "num_from_id bid = le_word (rev (take 4 bid))"

definition block_num :: "'a block_header_scheme \<Rightarrow> 32 word" where
  "block_num h = num_from_id (previous h) + 1"

definition block_id :: "proto_env \<Rightarrow> signed_block_header \<Rightarrow> block_id_type" where
  "block_id env h = rev (le_bytes 4 (block_num h)) @ take 16 (drop 4 (sha224_header env h))"

definition validate_signee :: "proto_env \<Rightarrow> public_key \<Rightarrow> signed_block_header \<Rightarrow> bool result" where
  "validate_signee env expected h = res_bind (header_signee env h) (\<lambda>k. Inr (k = expected))"

section \<open>Helpers\<close>

definition XGT_MAX_PERMLINK_LENGTH :: nat where "XGT_MAX_PERMLINK_LENGTH = 256"
definition XGT_MAX_WITNESS_URL_LENGTH :: nat where "XGT_MAX_WITNESS_URL_LENGTH = 2048"
definition XGT_MAX_MEMO_SIZE :: nat where "XGT_MAX_MEMO_SIZE = 2048"
definition XGT_COMMENT_TITLE_LIMIT :: nat where "XGT_COMMENT_TITLE_LIMIT = 256"
definition XGT_CUSTOM_OP_ID_MAX_LENGTH :: nat where "XGT_CUSTOM_OP_ID_MAX_LENGTH = 32"
definition XGT_MIN_WALLET_CREATION_FEE :: int where "XGT_MIN_WALLET_CREATION_FEE = 0"
definition XGT_MIN_BLOCK_SIZE_LIMIT :: "32 word" where "XGT_MIN_BLOCK_SIZE_LIMIT = 1024 * 64"

definition is_asset_type :: "asset \<Rightarrow> asset_symbol_type \<Rightarrow> bool" where
  "is_asset_type a s = (symbol a = s)"

definition validate_wallet_name :: "wallet_name \<Rightarrow> unit result" where
  "validate_wallet_name name = fc_assert (is_valid_wallet_name name) ''Account name is invalid''"

definition validate_permlink :: "string \<Rightarrow> unit result" where
  "validate_permlink permlink = res_all
    [fc_assert (length permlink < XGT_MAX_PERMLINK_LENGTH) ''permlink is too long'',
     fc_assert (is_utf8 permlink) ''permlink not formatted in UTF8'']"

definition validate_xtt_symbol :: "asset_symbol_type \<Rightarrow> unit result" where
  "validate_xtt_symbol s = res_all
    [symbol_validate s, fc_assert (space s = Xtt_Nai_Space) ''legacy symbol used instead of NAI'']"

definition validate_auth_size :: "authority \<Rightarrow> unit result" where
  "validate_auth_size a =
    fc_assert (length (wallet_auths a) + length (key_auths a) \<le> XGT_MAX_AUTHORITY_MEMBERSHIP)
      ''Authority membership exceeded''"

text \<open>The check on metadata that several operations repeat.\<close>

definition validate_json :: "proto_env \<Rightarrow> string \<Rightarrow> unit result" where
  "validate_json env json = (if length json > 0 then res_all
      [fc_assert (is_utf8 json) ''JSON Metadata not formatted in UTF8'',
       fc_assert (json_is_valid env json) ''JSON Metadata not valid JSON'']
     else Inr ())"

definition assert_not_negative :: "asset \<Rightarrow> string \<Rightarrow> unit result" where
  "assert_not_negative a msg =
    res_bind (asset_greater_eq a \<lparr>amount = 0, symbol = XGT_SYMBOL\<rparr>) (\<lambda>b. fc_assert b msg)"

section \<open>The structures\<close>

record wallet_create_operation =
  wc_fee :: asset
  wc_creator :: wallet_name
  wc_new_wallet_name :: wallet_name
  wc_recovery :: authority
  wc_money :: authority
  wc_social :: authority
  wc_memo_key :: public_key
  wc_json_metadata :: string

record wallet_update_operation =
  wu_wallet :: wallet_name
  wu_recovery :: "authority option"
  wu_money :: "authority option"
  wu_social :: "authority option"
  wu_memo_key :: "public_key option"
  wu_json_metadata :: string
  wu_social_json_metadata :: string
  wu_extensions :: extensions_type

record comment_operation =
  cm_parent_author :: wallet_name
  cm_parent_permlink :: string
  cm_author :: wallet_name
  cm_permlink :: string
  cm_title :: string
  cm_body :: string
  cm_json_metadata :: string

record comment_options_operation =
  co_author :: wallet_name
  co_permlink :: string
  co_allow_votes :: bool

record delete_comment_operation =
  dc_author :: wallet_name
  dc_permlink :: string

record vote_operation =
  vo_voter :: wallet_name
  vo_author :: wallet_name
  vo_permlink :: string
  vo_extensions :: extensions_type

record transfer_operation =
  tr_from :: wallet_name
  tr_to :: wallet_name
  tr_amount :: asset
  tr_memo :: string

record escrow_transfer_operation =
  et_from :: wallet_name
  et_to :: wallet_name
  et_agent :: wallet_name
  et_escrow_id :: "32 word"
  et_xgt_amount :: asset
  et_fee :: asset
  et_ratification_deadline :: time_point_sec
  et_escrow_expiration :: time_point_sec
  et_json_meta :: string

record escrow_approve_operation =
  ea_from :: wallet_name
  ea_to :: wallet_name
  ea_agent :: wallet_name
  ea_who :: wallet_name
  ea_escrow_id :: "32 word"
  ea_approve :: bool

record escrow_dispute_operation =
  ed_from :: wallet_name
  ed_to :: wallet_name
  ed_agent :: wallet_name
  ed_who :: wallet_name
  ed_escrow_id :: "32 word"

record escrow_release_operation =
  er_from :: wallet_name
  er_to :: wallet_name
  er_agent :: wallet_name
  er_who :: wallet_name
  er_receiver :: wallet_name
  er_escrow_id :: "32 word"
  er_xgt_amount :: asset

record legacy_xgt_asset =
  legacy_amount :: int
  legacy_ser :: "64 word"

record legacy_chain_properties =
  account_creation_fee :: legacy_xgt_asset
  maximum_block_size :: "32 word"

record witness_update_operation =
  wi_owner :: wallet_name
  wi_url :: string
  wi_block_signing_key :: public_key
  wi_props :: legacy_chain_properties
  wi_fee :: asset

record custom_operation =
  cu_required_auths :: "wallet_name flat_set"
  cu_id :: "16 word"
  cu_data :: bytes

record custom_json_operation =
  cj_required_auths :: "wallet_name flat_set"
  cj_required_social_auths :: "wallet_name flat_set"
  cj_id :: string
  cj_json :: string

record pow_operation =
  po_work :: pow_work
  po_new_recovery_key :: "public_key option"
  po_props :: legacy_chain_properties

record report_over_production_operation =
  rp_reporter :: wallet_name
  rp_first_block :: signed_block_header
  rp_second_block :: signed_block_header

record request_wallet_recovery_operation =
  rq_recovery_account :: wallet_name
  rq_account_to_recover :: wallet_name
  rq_new_recovery_authority :: authority
  rq_extensions :: extensions_type

record recover_wallet_operation =
  rw_account_to_recover :: wallet_name
  rw_new_recovery_authority :: authority
  rw_recent_recovery_authority :: authority
  rw_extensions :: extensions_type

record change_recovery_wallet_operation =
  cr_account_to_recover :: wallet_name
  cr_new_recovery_account :: wallet_name
  cr_extensions :: extensions_type

record contract_create_operation =
  cc_owner :: wallet_name
  cc_code :: bytes

record contract_invoke_operation =
  ci_caller :: wallet_name
  ci_contract_hash :: bytes
  ci_args :: "bytes list"

section \<open>Names and legacy amounts\<close>

definition XGT_WALLET_NAME_LENGTH :: nat where "XGT_WALLET_NAME_LENGTH = 40"

definition get_wallet_name_of_keys :: "proto_env \<Rightarrow> public_key list \<Rightarrow> wallet_name" where
  "get_wallet_name_of_keys env keys =
    ''XGT'' @ take XGT_WALLET_NAME_LENGTH (sha256_base58 env (concat keys))"

definition get_wallet_name :: "proto_env \<Rightarrow> wallet_create_operation \<Rightarrow> wallet_name" where
  "get_wallet_name env o' = get_wallet_name_of_keys env (get_keys (wc_recovery o'))"

definition is_canon :: "legacy_xgt_asset \<Rightarrow> bool" where
  "is_canon a = (legacy_ser a = XGT_SYMBOL_SER)"

definition to_asset :: "bool \<Rightarrow> legacy_xgt_asset \<Rightarrow> asset result" where
  "to_asset force_canon a =
    (if force_canon \<and> \<not> is_canon a then Inl (Assert_Exception ''Must use canonical XGT symbol serialization'')
     else Inr \<lparr>amount = legacy_amount a, symbol = XGT_SYMBOL\<rparr>)"

definition legacy_from_amount :: "int \<Rightarrow> legacy_xgt_asset" where
  "legacy_from_amount a = \<lparr>legacy_amount = a, legacy_ser = XGT_SYMBOL_SER\<rparr>"

definition legacy_from_asset :: "asset \<Rightarrow> legacy_xgt_asset result" where
  "legacy_from_asset a = res_bind (fc_assert (symbol a = XGT_SYMBOL) []) (\<lambda>_. Inr (legacy_from_amount (amount a)))"

definition chain_properties_validate :: "bool \<Rightarrow> legacy_chain_properties \<Rightarrow> unit result" where
  "chain_properties_validate force_canon p = res_all
    [if force_canon then fc_assert (is_canon (account_creation_fee p)) [] else Inr (),
     fc_assert (legacy_amount (account_creation_fee p) \<ge> XGT_MIN_WALLET_CREATION_FEE) [],
     fc_assert (maximum_block_size p \<ge> XGT_MIN_BLOCK_SIZE_LIMIT) []]"

definition legacy_sers :: "64 word list" where
  "legacy_sers =
    [1 OR push_bit 8 XGT_SYMBOL_U64, 2 OR push_bit 8 XGT_SYMBOL_U64, 5 OR push_bit 8 XGT_SYMBOL_U64,
     3 OR push_bit 8 48 OR push_bit 16 46 OR push_bit 24 48 OR push_bit 32 48 OR push_bit 40 49,
     3 OR push_bit 8 54 OR push_bit 16 46 OR push_bit 24 48 OR push_bit 32 48 OR push_bit 40 48]"

definition pack_legacy_symbol :: "64 word \<Rightarrow> bytes result" where
  "pack_legacy_symbol ser =
    (if ser \<in> set (legacy_sers @ [XGT_SYMBOL_SER]) then Inr (le_bytes 8 ser)
     else Inl (Assert_Exception ''Cannot serialize legacy symbol''))"

definition unpack_legacy_symbol :: "bytes \<Rightarrow> (64 word \<times> bytes) result" where
  "unpack_legacy_symbol s = res_bind (stream_read 8 s) (\<lambda>(bs, rest).
     let ser = le_word bs in
     if ser \<in> set (legacy_sers @ [XGT_SYMBOL_SER]) then Inr (ser, rest)
     else Inl (Assert_Exception ''Cannot deserialize legacy symbol''))"

section \<open>Validation\<close>

definition wallet_create_validate :: "proto_env \<Rightarrow> wallet_create_operation \<Rightarrow> unit result" where
  "wallet_create_validate env o' = res_all
    [fc_assert (is_asset_type (wc_fee o') XGT_SYMBOL) ''Account creation fee must be XGT'',
     authority_validate (wc_recovery o'),
     authority_validate (wc_money o'),
     validate_json env (wc_json_metadata o'),
     assert_not_negative (wc_fee o') ''Account creation fee cannot be negative'']"

definition wallet_update_validate :: "proto_env \<Rightarrow> wallet_update_operation \<Rightarrow> unit result" where
  "wallet_update_validate env o' = res_all
    [validate_wallet_name (wu_wallet o'),
     validate_json env (wu_json_metadata o'),
     validate_json env (wu_social_json_metadata o')]"

definition comment_validate :: "proto_env \<Rightarrow> comment_operation \<Rightarrow> unit result" where
  "comment_validate env o' = res_all
    [fc_assert (length (cm_title o') < XGT_COMMENT_TITLE_LIMIT) ''Title size limit exceeded'',
     fc_assert (is_utf8 (cm_title o')) ''Title not formatted in UTF8'',
     fc_assert (length (cm_body o') > 0) ''Body is empty'',
     fc_assert (is_utf8 (cm_body o')) ''Body not formatted in UTF8'',
     if length (cm_parent_author o') > 0 then validate_wallet_name (cm_parent_author o') else Inr (),
     validate_wallet_name (cm_author o'),
     validate_permlink (cm_parent_permlink o'),
     validate_permlink (cm_permlink o'),
     if length (cm_json_metadata o') > 0
     then fc_assert (json_is_valid env (cm_json_metadata o')) ''JSON Metadata not valid JSON'' else Inr ()]"

definition comment_options_validate :: "comment_options_operation \<Rightarrow> unit result" where
  "comment_options_validate o' = res_all [validate_wallet_name (co_author o'), validate_permlink (co_permlink o')]"

definition delete_comment_validate :: "delete_comment_operation \<Rightarrow> unit result" where
  "delete_comment_validate o' = res_all [validate_permlink (dc_permlink o'), validate_wallet_name (dc_author o')]"

definition vote_validate :: "vote_operation \<Rightarrow> unit result" where
  "vote_validate o' = res_all
    [validate_wallet_name (vo_voter o'), validate_wallet_name (vo_author o'), validate_permlink (vo_permlink o')]"

definition transfer_validate :: "transfer_operation \<Rightarrow> unit result" where
  "transfer_validate o' = res_all
    [validate_wallet_name (tr_from o'),
     fc_assert (amount (tr_amount o') > 0) ''Cannot transfer a negative amount (aka: stealing)'',
     fc_assert (length (tr_memo o') < XGT_MAX_MEMO_SIZE) ''Memo is too large'',
     fc_assert (is_utf8 (tr_memo o')) ''Memo is not UTF8'']"

definition witness_update_validate :: "witness_update_operation \<Rightarrow> unit result" where
  "witness_update_validate o' = res_all
    [validate_wallet_name (wi_owner o'),
     fc_assert (length (wi_url o') \<le> XGT_MAX_WITNESS_URL_LENGTH) ''URL is too long'',
     fc_assert (length (wi_url o') > 0) ''URL size must be greater than 0'',
     fc_assert (is_utf8 (wi_url o')) ''URL is not valid UTF8'',
     assert_not_negative (wi_fee o') ''Fee cannot be negative'',
     chain_properties_validate False (wi_props o')]"

definition custom_validate :: "custom_operation \<Rightarrow> unit result" where
  "custom_validate o' = fc_assert (length (cu_required_auths o') > 0) ''at least one account must be specified''"

definition custom_json_validate :: "proto_env \<Rightarrow> custom_json_operation \<Rightarrow> unit result" where
  "custom_json_validate env o' = res_all
    [fc_assert (length (cj_required_auths o') + length (cj_required_social_auths o') > 0)
       ''at least one account must be specified'',
     fc_assert (length (cj_id o') \<le> XGT_CUSTOM_OP_ID_MAX_LENGTH) ''Operation ID length exceeded'',
     fc_assert (is_utf8 (cj_json o')) ''JSON Metadata not formatted in UTF8'',
     fc_assert (json_is_valid env (cj_json o')) ''JSON Metadata not valid JSON'']"

definition pow_create :: "proto_env \<Rightarrow> block_id_type \<Rightarrow> wallet_name \<Rightarrow> 64 word \<Rightarrow> pow result" where
  "pow_create env prev name n =
    (let inp = \<lparr>worker_account = name, prev_block = prev, nonce = n\<rparr>;
         prv_key = hash_pow_input env inp;
         digest = hash_digest env prv_key;
         signature = sign_compact env prv_key digest;
         sig_hash = hash_signature env signature
     in res_bind (recover_key env signature sig_hash) (\<lambda>recover.
        Inr \<lparr>pow_input_of = inp, pow_summary = approx_log_32 (hash_work env digest recover)\<rparr>))"

definition pow_validate :: "proto_env \<Rightarrow> pow \<Rightarrow> unit result" where
  "pow_validate env p =
    res_bind (validate_wallet_name (worker_account (pow_input_of p))) (\<lambda>_.
    res_bind (pow_create env (prev_block (pow_input_of p)) (worker_account (pow_input_of p)) (nonce (pow_input_of p)))
      (\<lambda>tmp. fc_assert (pow_summary p = pow_summary tmp) ''reported work does not match calculated work''))"

definition sha2_pow_update :: "proto_env \<Rightarrow> 64 word \<Rightarrow> sha2_pow \<Rightarrow> sha2_pow" where
  "sha2_pow_update env n p =
    (let inp = (sha2_input p)\<lparr>nonce := n\<rparr>;
         proof = hash_digest env (hash_pow_input env inp)
     in p\<lparr>sha2_input := inp, sha2_proof := proof, sha2_summary := approx_log_32 proof\<rparr>)"

definition sha2_pow_init :: "block_id_type \<Rightarrow> wallet_name \<Rightarrow> sha2_pow \<Rightarrow> sha2_pow" where
  "sha2_pow_init recent_block name p =
    p\<lparr>sha2_input := (sha2_input p)\<lparr>worker_account := name, prev_block := recent_block\<rparr>\<rparr>"

definition sha2_pow_create :: "proto_env \<Rightarrow> block_id_type \<Rightarrow> wallet_name \<Rightarrow> 64 word \<Rightarrow> sha2_pow \<Rightarrow> sha2_pow" where
  "sha2_pow_create env recent_block name n p =
    (let inp = \<lparr>worker_account = name, prev_block = recent_block, nonce = n\<rparr>;
         proof = hash_digest env (hash_pow_input env inp)
     in p\<lparr>sha2_input := inp, sha2_proof := proof, sha2_summary := approx_log_32 proof\<rparr>)"

definition sha2_pow_is_valid :: "proto_env \<Rightarrow> sha2_pow \<Rightarrow> bool" where
  "sha2_pow_is_valid env p =
    (let h = hash_digest env (hash_pow_input env (sha2_input p)) in
     if sha2_proof p \<noteq> h then False
     else if sha2_summary p \<noteq> approx_log_32 (sha2_proof p) then False
     else True)"

definition sha2_pow_validate :: "proto_env \<Rightarrow> sha2_pow \<Rightarrow> unit result" where
  "sha2_pow_validate env p = res_all
    [validate_wallet_name (worker_account (sha2_input p)),
     fc_assert (sha2_pow_is_valid env p) ''proof of work seed does not match expected seed'']"

definition pow_operation_validate :: "proto_env \<Rightarrow> pow_operation \<Rightarrow> unit result" where
  "pow_operation_validate env o' = res_all
    [chain_properties_validate True (po_props o'),
     case po_work o' of Pow_Work p \<Rightarrow> pow_validate env p | Sha2_Pow_Work p \<Rightarrow> sha2_pow_validate env p]"

definition get_worker_name :: "pow_operation \<Rightarrow> wallet_name" where
  "get_worker_name o' = (case po_work o' of
     Pow_Work p \<Rightarrow> worker_account (pow_input_of p) | Sha2_Pow_Work p \<Rightarrow> worker_account (sha2_input p))"

definition report_over_production_validate :: "proto_env \<Rightarrow> report_over_production_operation \<Rightarrow> unit result" where
  "report_over_production_validate env o' =
    (let a = rp_first_block o'; b = rp_second_block o' in
     res_bind (res_all
       [validate_wallet_name (rp_reporter o'), validate_wallet_name (witness a),
        fc_assert (witness a = witness b) [],
        fc_assert (timestamp a = timestamp b) []]) (\<lambda>_.
     res_bind (header_signee env a) (\<lambda>s1.
     res_bind (header_signee env b) (\<lambda>s2.
     res_all [fc_assert (s1 = s2) [], fc_assert (block_id env a \<noteq> block_id env b) []]))))"

definition escrow_transfer_validate :: "proto_env \<Rightarrow> escrow_transfer_operation \<Rightarrow> unit result" where
  "escrow_transfer_validate env o' = res_all
    [validate_wallet_name (et_from o'), validate_wallet_name (et_to o'), validate_wallet_name (et_agent o'),
     fc_assert (amount (et_fee o') \<ge> 0) ''fee cannot be negative'',
     fc_assert (amount (et_xgt_amount o') \<ge> 0) ''xgt amount cannot be negative'',
     fc_assert (amount (et_xgt_amount o') > 0) ''escrow must transfer a non-zero amount'',
     fc_assert (et_from o' \<noteq> et_agent o' \<and> et_to o' \<noteq> et_agent o') ''agent must be a third party'',
     fc_assert (symbol (et_fee o') = XGT_SYMBOL) ''fee must be XGT'',
     fc_assert (symbol (et_xgt_amount o') = XGT_SYMBOL) ''xgt amount must contain XGT'',
     fc_assert (et_ratification_deadline o' < et_escrow_expiration o')
       ''ratification deadline must be before escrow expiration'',
     validate_json env (et_json_meta o')]"

definition escrow_approve_validate :: "escrow_approve_operation \<Rightarrow> unit result" where
  "escrow_approve_validate o' = res_all
    [validate_wallet_name (ea_from o'), validate_wallet_name (ea_to o'), validate_wallet_name (ea_agent o'),
     validate_wallet_name (ea_who o'),
     fc_assert (ea_who o' = ea_to o' \<or> ea_who o' = ea_agent o') ''to or agent must approve escrow'']"

definition escrow_dispute_validate :: "escrow_dispute_operation \<Rightarrow> unit result" where
  "escrow_dispute_validate o' = res_all
    [validate_wallet_name (ed_from o'), validate_wallet_name (ed_to o'), validate_wallet_name (ed_agent o'),
     validate_wallet_name (ed_who o'),
     fc_assert (ed_who o' = ed_from o' \<or> ed_who o' = ed_to o') ''who must be from or to'']"

definition escrow_release_validate :: "escrow_release_operation \<Rightarrow> unit result" where
  "escrow_release_validate o' = res_all
    [validate_wallet_name (er_from o'), validate_wallet_name (er_to o'), validate_wallet_name (er_agent o'),
     validate_wallet_name (er_who o'), validate_wallet_name (er_receiver o'),
     fc_assert (er_who o' = er_from o' \<or> er_who o' = er_to o' \<or> er_who o' = er_agent o')
       ''who must be from or to or agent'',
     fc_assert (er_receiver o' = er_from o' \<or> er_receiver o' = er_to o') ''receiver must be from or to'',
     fc_assert (amount (er_xgt_amount o') \<ge> 0) ''xgt amount cannot be negative'',
     fc_assert (amount (er_xgt_amount o') > 0) ''escrow must release a non-zero amount'',
     fc_assert (symbol (er_xgt_amount o') = XGT_SYMBOL) ''xgt amount must contain XGT'']"

definition request_wallet_recovery_validate :: "request_wallet_recovery_operation \<Rightarrow> unit result" where
  "request_wallet_recovery_validate o' = res_all
    [validate_wallet_name (rq_recovery_account o'), validate_wallet_name (rq_account_to_recover o'),
     authority_validate (rq_new_recovery_authority o')]"

definition authority_eq :: "authority \<Rightarrow> authority \<Rightarrow> bool" where
  "authority_eq a b =
    (weight_threshold a = weight_threshold b \<and> wallet_auths a = wallet_auths b \<and> key_auths a = key_auths b)"

definition recover_wallet_validate :: "recover_wallet_operation \<Rightarrow> unit result" where
  "recover_wallet_validate o' = res_all
    [validate_wallet_name (rw_account_to_recover o'),
     fc_assert (\<not> authority_eq (rw_new_recovery_authority o') (rw_recent_recovery_authority o'))
       ''Cannot set new recovery authority to the recent recovery authority'',
     fc_assert (\<not> is_impossible (rw_new_recovery_authority o')) ''new recovery authority cannot be impossible'',
     fc_assert (\<not> is_impossible (rw_recent_recovery_authority o')) ''recent recovery authority cannot be impossible'',
     fc_assert (weight_threshold (rw_new_recovery_authority o') \<noteq> 0) ''new recovery authority cannot be trivial'',
     authority_validate (rw_new_recovery_authority o'),
     authority_validate (rw_recent_recovery_authority o')]"

definition change_recovery_wallet_validate :: "change_recovery_wallet_operation \<Rightarrow> unit result" where
  "change_recovery_wallet_validate o' = res_all
    [validate_wallet_name (cr_account_to_recover o'), validate_wallet_name (cr_new_recovery_account o')]"

definition contract_create_validate :: "contract_create_operation \<Rightarrow> unit result" where
  "contract_create_validate o' = validate_wallet_name (cc_owner o')"

definition contract_invoke_validate :: "contract_invoke_operation \<Rightarrow> unit result" where
  "contract_invoke_validate o' = Inr ()"

text \<open>The automated actions; those of a token all check the account and the symbol.\<close>

definition required_action_validate :: "required_automated_action \<Rightarrow> unit result" where
  "required_action_validate a = (case a of
      Example_Required account \<Rightarrow> validate_wallet_name account
    | Xtt_Ico_Launch x \<Rightarrow> res_all [validate_wallet_name (action_control_account x), validate_xtt_symbol (action_symbol x)]
    | Xtt_Ico_Evaluation x \<Rightarrow> res_all [validate_wallet_name (action_control_account x), validate_xtt_symbol (action_symbol x)]
    | Xtt_Token_Launch x \<Rightarrow> res_all [validate_wallet_name (action_control_account x), validate_xtt_symbol (action_symbol x)]
    | Xtt_Refund x \<Rightarrow> res_all [validate_wallet_name (refund_contributor x), validate_xtt_symbol (refund_symbol x)])"

definition optional_action_validate :: "optional_automated_action \<Rightarrow> unit result" where
  "optional_action_validate a = (case a of Example_Optional account \<Rightarrow> validate_wallet_name account)"

section \<open>Serialisation of the legacy symbol\<close>

interpretation legacy_codec: codec pack_legacy_symbol unpack_legacy_symbol
  "\<lambda>ser. ser \<in> set (legacy_sers @ [XGT_SYMBOL_SER])"
proof unfold_locales
  fix ser :: "64 word" and bs rest
  assume ser: "ser \<in> set (legacy_sers @ [XGT_SYMBOL_SER])"
  then show "is_ok (pack_legacy_symbol ser)" by (simp add: pack_legacy_symbol_def)
  assume "pack_legacy_symbol ser = Inr bs"
  with ser have "bs = le_bytes 8 ser" by (simp add: pack_legacy_symbol_def)
  with ser show "unpack_legacy_symbol (bs @ rest) = Inr (ser, rest)"
    by (simp add: unpack_legacy_symbol_def le_word_le_bytes del: set_append)
qed

section \<open>Proofs of work\<close>

lemma sha2_pow_create_valid: "sha2_pow_is_valid env (sha2_pow_create env b w n p)"
  by (simp add: sha2_pow_is_valid_def sha2_pow_create_def Let_def)

lemma sha2_pow_mining_valid: "sha2_pow_is_valid env (sha2_pow_update env n (sha2_pow_init b w p))"
  by (simp add: sha2_pow_is_valid_def sha2_pow_update_def Let_def)

lemma pow_create_valid:
  "pow_create env b w n = Inr p \<Longrightarrow> pow_validate env p = Inr ()"
  by (auto simp: pow_create_def pow_validate_def Let_def validate_wallet_name_def is_valid_wallet_name_def
      fc_assert_def result_simps)

end
