(* ===== verification/Xtt_Operations.thy ===== *)
theory Xtt_Operations
  imports Xgt_Operations
begin

text \<open>
  The operations on user-issued tokens: the structures of
  \<open>libraries/protocol/include/xgt/protocol/xtt_operations.hpp\<close> and the validation of
  \<open>xtt_operations.cpp\<close>, with the destinations of \<open>xtt_util.cpp\<close>.
\<close>

section \<open>Structures\<close>

definition XTT_MAX_UNIT_ROUTES :: nat where "XTT_MAX_UNIT_ROUTES = 10"

definition XTT_MAX_UNIT_COUNT :: nat where "XTT_MAX_UNIT_COUNT = 20"

definition XGT_MAX_SHARE_SUPPLY :: int where "XGT_MAX_SHARE_SUPPLY = 1000000000000000"

definition XGT_GENESIS_TIME :: time_point_sec where "XGT_GENESIS_TIME = 1586840015"

definition XTT_MAX_NOMINAL_VOTES_PER_DAY :: "32 word" where "XTT_MAX_NOMINAL_VOTES_PER_DAY = 1000"

definition XGT_SYMBOL_STR :: string where "XGT_SYMBOL_STR = ''XGT''"

type_synonym unit_target_type = string

record xtt_create_operation =
  xc_control_account :: wallet_name
  xc_symbol :: asset_symbol_type
  xc_desired_ticker :: string
  xc_xtt_creation_fee :: asset
  xc_precision :: "8 word"
  xc_extensions :: extensions_type

record xtt_generation_unit =
  xgt_unit :: "(unit_target_type, 16 word) flat_map"
  token_unit :: "(unit_target_type, 16 word) flat_map"

record xtt_capped_generation_policy =
  generation_unit :: xtt_generation_unit
  policy_extensions :: extensions_type

record xtt_setup_operation =
  xs_control_account :: wallet_name
  xs_symbol :: asset_symbol_type
  xs_max_supply :: int
  xs_contribution_begin_time :: time_point_sec
  xs_contribution_end_time :: time_point_sec
  xs_launch_time :: time_point_sec
  xs_xgt_units_min :: int
  xs_min_unit_ratio :: "32 word"
  xs_max_unit_ratio :: "32 word"
  xs_extensions :: extensions_type

record xtt_setup_ico_tier_operation =
  xt_control_account :: wallet_name
  xt_symbol :: asset_symbol_type
  xt_xgt_units_cap :: int
  xt_generation_policy :: xtt_capped_generation_policy
  xt_remove :: bool
  xt_extensions :: extensions_type

datatype xtt_setup_parameter = Allow_Voting bool

record xtt_param_vote_regeneration =
  vote_regeneration_period_seconds :: "32 word"
  votes_per_regeneration_period :: "32 word"

datatype xtt_runtime_parameter =
    Param_Windows "32 word"
  | Param_Vote_Regeneration xtt_param_vote_regeneration
  | Param_Allow_Downvotes bool

record xtt_set_setup_parameters_operation =
  xp_control_account :: wallet_name
  xp_symbol :: asset_symbol_type
  xp_setup_parameters :: "xtt_setup_parameter list"
  xp_extensions :: extensions_type

record xtt_set_runtime_parameters_operation =
  xr_control_account :: wallet_name
  xr_symbol :: asset_symbol_type
  xr_runtime_parameters :: "xtt_runtime_parameter list"
  xr_extensions :: extensions_type

record xtt_contribute_operation =
  xo_contributor :: wallet_name
  xo_symbol :: asset_symbol_type
  xo_contribution_id :: "32 word"
  xo_contribution :: asset
  xo_extensions :: extensions_type

section \<open>Destinations\<close>

definition is_contributor :: "unit_target_type \<Rightarrow> bool" where
  "is_contributor t = (t = ''$from'' \<or> t = ''$from.vesting'')"

definition is_wallet_name_type :: "unit_target_type \<Rightarrow> bool" where
  "is_wallet_name_type t = (if is_contributor t then False else True)"

text \<open>Every name is valid (\<open>is_valid_wallet_name\<close>), so the rest of the source function, which
  reads \<open>$!name.vesting\<close>, is reached only by a change of that function.\<close>

definition get_unit_target_account :: "unit_target_type \<Rightarrow> wallet_name result" where
  "get_unit_target_account t =
    res_bind (fc_assert (\<not> is_contributor t) ''Cannot derive an account name from a contributor special destination.'') (\<lambda>_.
    if is_valid_wallet_name t then Inr t
    else
      let prefix_len = length ''$!''; suffix_len = length ''.vesting'';
          name = take (length t - suffix_len - prefix_len) (drop prefix_len t)
      in res_bind (res_all
        [fc_assert (length t > prefix_len + suffix_len) ''Unit target is malformed'',
         fc_assert (take prefix_len t = ''$!'') ''Expected XTT destination account prefix'',
         fc_assert (drop (length t - suffix_len) t = ''.vesting'') ''Expected XTT destination vesting suffix'',
         fc_assert (is_valid_wallet_name name) ''The derived unit target account name is invalid.''])
        (\<lambda>_. Inr name))"

definition is_valid_unit_target :: "unit_target_type \<Rightarrow> bool" where
  "is_valid_unit_target t =
    (if is_valid_wallet_name t then True else if is_contributor t then True else False)"

definition is_valid_xtt_ico_xgt_destination :: "unit_target_type \<Rightarrow> bool" where
  "is_valid_xtt_ico_xgt_destination t = (if is_valid_wallet_name t then True else False)"

definition is_valid_xtt_ico_token_destination :: "unit_target_type \<Rightarrow> bool" where
  "is_valid_xtt_ico_token_destination t =
    (if is_valid_wallet_name t then True else if is_contributor t then True else False)"

fun unit_sum :: "32 word \<Rightarrow> (unit_target_type \<times> 16 word) list \<Rightarrow> 32 word" where
  "unit_sum res [] = res"
| "unit_sum res ((t, n) # us) = unit_sum (res + ucast n) us"

definition xgt_unit_sum :: "xtt_generation_unit \<Rightarrow> 32 word" where
  "xgt_unit_sum u = unit_sum 0 (xgt_unit u)"

definition token_unit_sum :: "xtt_generation_unit \<Rightarrow> 32 word" where
  "token_unit_sum u = unit_sum 0 (token_unit u)"

section \<open>Validation\<close>

definition xtt_admin_validate :: "wallet_name \<Rightarrow> asset_symbol_type \<Rightarrow> unit result" where
  "xtt_admin_validate control_account s = res_all [validate_wallet_name control_account, validate_xtt_symbol s]"

definition ticker_validate :: "string \<Rightarrow> unit result" where
  "ticker_validate ticker = (if ticker \<noteq> [] then res_all
     [fc_assert (ticker \<noteq> XGT_SYMBOL_STR) ''XTT Ticker Symbol cannot be XGT'',
      fc_assert (length ticker \<ge> 3) ''XTT Ticker Symbol must be at least 3 characters long.'',
      res_all (map (\<lambda>c. fc_assert (c \<ge> CHR ''A'' \<and> c \<le> CHR ''Z'')
        ''XTT Ticker Symbol can only contain capital letters.'') ticker)]
     else Inr ())"

definition xtt_create_validate :: "xtt_create_operation \<Rightarrow> unit result" where
  "xtt_create_validate o' = res_all
    [xtt_admin_validate (xc_control_account o') (xc_symbol o'),
     ticker_validate (xc_desired_ticker o'),
     fc_assert (amount (xc_xtt_creation_fee o') \<ge> 0) ''fee cannot be negative'',
     fc_assert (amount (xc_xtt_creation_fee o') \<le> XGT_MAX_SHARE_SUPPLY) ''Fee must be smaller than XGT_MAX_SHARE_SUPPLY'',
     fc_assert (is_asset_type (xc_xtt_creation_fee o') XGT_SYMBOL) ''Fee must be XGT'',
     fc_assert (decimals (xc_symbol o') = xc_precision o') ''Mismatch between redundantly provided precision'']"

definition generation_unit_validate :: "xtt_generation_unit \<Rightarrow> unit result" where
  "generation_unit_validate u = res_all
    [fc_assert (length (xgt_unit u) \<le> XTT_MAX_UNIT_ROUTES) [],
     res_all (map (\<lambda>e. res_all [fc_assert (is_valid_unit_target (fst e)) [], fc_assert (snd e > 0) []]) (xgt_unit u)),
     fc_assert (length (token_unit u) \<le> XTT_MAX_UNIT_ROUTES) [],
     res_all (map (\<lambda>e. res_all [fc_assert (is_valid_unit_target (fst e)) [], fc_assert (snd e > 0) []]) (token_unit u))]"

definition capped_generation_policy_validate :: "xtt_capped_generation_policy \<Rightarrow> unit result" where
  "capped_generation_policy_validate p = (let u = generation_unit p in res_all
    [generation_unit_validate u,
     fc_assert (length (xgt_unit u) > 0) [],
     fc_assert (length (token_unit u) \<ge> 0) [],
     fc_assert (length (xgt_unit u) \<le> XTT_MAX_UNIT_COUNT) [],
     fc_assert (length (token_unit u) \<le> XTT_MAX_UNIT_COUNT) [],
     res_all (map (\<lambda>e. fc_assert (is_valid_xtt_ico_xgt_destination (fst e)) ''not a valid XGT unit target'') (xgt_unit u)),
     res_all (map (\<lambda>e. fc_assert (is_valid_xtt_ico_token_destination (fst e)) ''not a valid token unit target'') (token_unit u))])"

definition xtt_setup_ico_tier_validate :: "xtt_setup_ico_tier_operation \<Rightarrow> unit result" where
  "xtt_setup_ico_tier_validate o' = res_all
    [xtt_admin_validate (xt_control_account o') (xt_symbol o'),
     fc_assert (xt_xgt_units_cap o' \<ge> 0) ''Xgt units cap must be greater than or equal to 0'',
     fc_assert (xt_xgt_units_cap o' \<le> XGT_MAX_SHARE_SUPPLY) ''Xgt units cap must be less than or equal to'',
     capped_generation_policy_validate (xt_generation_policy o')]"

definition xtt_setup_validate :: "xtt_setup_operation \<Rightarrow> unit result" where
  "xtt_setup_validate o' = res_all
    [xtt_admin_validate (xs_control_account o') (xs_symbol o'),
     fc_assert (xs_max_supply o' > 0) ''Max supply must be greater than 0'',
     fc_assert (xs_max_supply o' \<le> XGT_MAX_SHARE_SUPPLY) ''Max supply must be less than'',
     fc_assert (xs_contribution_begin_time o' > XGT_GENESIS_TIME) ''Contribution begin time must be greater than'',
     fc_assert (xs_contribution_end_time o' \<ge> xs_contribution_begin_time o')
       ''Contribution end time must be equal to or later than contribution begin time'',
     fc_assert (xs_launch_time o' \<ge> xs_contribution_end_time o')
       ''Launch time must be equal to or later than the contribution end time'',
     fc_assert (xs_xgt_units_min o' \<ge> 0) ''Xgt units min must be greater than or equal to 0'']"

text \<open>The arithmetic is on 32-bit words, and a period of zero divides by zero.\<close>

definition runtime_parameter_validate :: "xtt_runtime_parameter \<Rightarrow> unit result" where
  "runtime_parameter_validate p = (case p of
      Param_Windows _ \<Rightarrow> Inr ()
    | Param_Vote_Regeneration v \<Rightarrow>
        let period = vote_regeneration_period_seconds v in
        if period = 0 then Inl Divide_By_Zero_Exception
        else let nominal_votes_per_day = (votes_per_regeneration_period v * 86400 + period - 1) div period
          in fc_assert (nominal_votes_per_day \<le> XTT_MAX_NOMINAL_VOTES_PER_DAY) ''Nominal votes per day exceeds maximum''
    | Param_Allow_Downvotes _ \<Rightarrow> Inr ())"

definition xtt_set_runtime_parameters_validate :: "xtt_set_runtime_parameters_operation \<Rightarrow> unit result" where
  "xtt_set_runtime_parameters_validate o' = res_all
    [xtt_admin_validate (xr_control_account o') (xr_symbol o'),
     fc_assert (xr_runtime_parameters o' \<noteq> []) [],
     res_all (map runtime_parameter_validate (xr_runtime_parameters o'))]"

definition xtt_set_setup_parameters_validate :: "xtt_set_setup_parameters_operation \<Rightarrow> unit result" where
  "xtt_set_setup_parameters_validate o' = res_all
    [xtt_admin_validate (xp_control_account o') (xp_symbol o'),
     fc_assert (xp_setup_parameters o' \<noteq> []) []]"

definition xtt_contribute_validate :: "xtt_contribute_operation \<Rightarrow> unit result" where
  "xtt_contribute_validate o' = res_all
    [validate_wallet_name (xo_contributor o'), validate_xtt_symbol (xo_symbol o'),
     fc_assert (symbol (xo_contribution o') = XGT_SYMBOL) ''Contributions must be made in XGT'',
     fc_assert (amount (xo_contribution o') > 0) ''Contribution amount must be greater than 0'']"

section \<open>Reference definitions\<close>

definition unit_total :: "(unit_target_type, 16 word) flat_map \<Rightarrow> nat" where
  "unit_total us = sum_list (map (\<lambda>e. unat (snd e)) us)"

definition sample_policy :: xtt_capped_generation_policy where
  "sample_policy = \<lparr>generation_unit = \<lparr>xgt_unit = [(''alice'', 3), (''bob'', 65535)], token_unit = [(''$from'', 7)]\<rparr>,
     policy_extensions = []\<rparr>"

section \<open>Sums of units\<close>

lemma unit_total_less: "unit_total us \<le> length us * 65535"
proof (induction us)
  case (Cons u us)
  have "unat (snd u) \<le> 65535" using unsigned_less[of "snd u", where 'a = nat] by simp
  with Cons show ?case by (simp add: unit_total_def)
qed (simp add: unit_total_def)

lemma unit_sum_exact:
  assumes "unat acc + unit_total us < 2 ^ 32"
  shows "unat (unit_sum acc us) = unat acc + unit_total us"
  using assms
proof (induction us arbitrary: acc)
  case (Cons u us)
  obtain t n where u: "u = (t, n)" by force
  have "unat (acc + ucast n) = unat acc + unat n"
    using Cons.prems by (simp add: u unit_total_def unat_word_ariths unat_ucast_up)
  then show ?case using Cons by (simp add: u unit_total_def)
qed (simp add: unit_total_def)

lemma unit_total_pos: "us \<noteq> [] \<Longrightarrow> list_all (\<lambda>e. 0 < snd e) us \<Longrightarrow> 0 < unit_total us"
  by (cases us) (auto simp: unit_total_def unat_gt_0 word_gt_0)

section \<open>Properties\<close>




end
