(* ===== verification/Transactions.thy ===== *)
theory Transactions
  imports Xtt_Operations
begin

text \<open>
  Operations and transactions: the operation variant of
  \<open>libraries/protocol/include/xgt/protocol/operations.hpp\<close>, the authorities each operation
  requires (\<open>base.hpp\<close>, the operation headers, \<open>operation_util.hpp\<close>), \<open>verify_authority\<close> of
  \<open>transaction_util.hpp\<close> and the transactions of \<open>transaction.cpp\<close>.  The lemmas show that a
  transaction that passes carries enough signatures for every authority its operations name.
\<close>

section \<open>Operations\<close>

datatype operation =
    Comment_Op comment_operation
  | Transfer_Op transfer_operation
  | Wallet_Create_Op wallet_create_operation
  | Wallet_Update_Op wallet_update_operation
  | Witness_Update_Op witness_update_operation
  | Custom_Op custom_operation
  | Report_Over_Production_Op report_over_production_operation
  | Delete_Comment_Op delete_comment_operation
  | Custom_Json_Op custom_json_operation
  | Comment_Options_Op comment_options_operation
  | Request_Wallet_Recovery_Op request_wallet_recovery_operation
  | Recover_Wallet_Op recover_wallet_operation
  | Change_Recovery_Wallet_Op change_recovery_wallet_operation
  | Escrow_Transfer_Op escrow_transfer_operation
  | Escrow_Dispute_Op escrow_dispute_operation
  | Escrow_Release_Op escrow_release_operation
  | Pow_Op pow_operation
  | Escrow_Approve_Op escrow_approve_operation
  | Vote_Op vote_operation
  | Xtt_Setup_Op xtt_setup_operation
  | Xtt_Setup_Ico_Tier_Op xtt_setup_ico_tier_operation
  | Xtt_Set_Setup_Parameters_Op xtt_set_setup_parameters_operation
  | Xtt_Set_Runtime_Parameters_Op xtt_set_runtime_parameters_operation
  | Xtt_Create_Op xtt_create_operation
  | Xtt_Contribute_Op xtt_contribute_operation
  | Shutdown_Witness_Op wallet_name
  | Hardfork_Op "32 word"
  | Clear_Null_Wallet_Balance_Op "asset list"
  | Contract_Create_Op contract_create_operation
  | Contract_Invoke_Op contract_invoke_operation

fun is_virtual_operation :: "operation \<Rightarrow> bool" where
  "is_virtual_operation (Shutdown_Witness_Op _) = True"
| "is_virtual_operation (Hardfork_Op _) = True"
| "is_virtual_operation (Clear_Null_Wallet_Balance_Op _) = True"
| "is_virtual_operation _ = False"

fun is_wallet_create_operation :: "operation \<Rightarrow> bool" where
  "is_wallet_create_operation (Wallet_Create_Op _) = True"
| "is_wallet_create_operation _ = False"

fun is_wallet_update_operation :: "operation \<Rightarrow> bool" where
  "is_wallet_update_operation (Wallet_Update_Op _) = True"
| "is_wallet_update_operation _ = False"

fun is_pow_operation :: "operation \<Rightarrow> bool" where
  "is_pow_operation (Pow_Op _) = True"
| "is_pow_operation _ = False"

fun operation_validate :: "proto_env \<Rightarrow> operation \<Rightarrow> unit result" where
  "operation_validate env (Comment_Op x) = comment_validate env x"
| "operation_validate env (Transfer_Op x) = transfer_validate x"
| "operation_validate env (Wallet_Create_Op x) = wallet_create_validate env x"
| "operation_validate env (Wallet_Update_Op x) = wallet_update_validate env x"
| "operation_validate env (Witness_Update_Op x) = witness_update_validate x"
| "operation_validate env (Custom_Op x) = custom_validate x"
| "operation_validate env (Report_Over_Production_Op x) = report_over_production_validate env x"
| "operation_validate env (Delete_Comment_Op x) = delete_comment_validate x"
| "operation_validate env (Custom_Json_Op x) = custom_json_validate env x"
| "operation_validate env (Comment_Options_Op x) = comment_options_validate x"
| "operation_validate env (Request_Wallet_Recovery_Op x) = request_wallet_recovery_validate x"
| "operation_validate env (Recover_Wallet_Op x) = recover_wallet_validate x"
| "operation_validate env (Change_Recovery_Wallet_Op x) = change_recovery_wallet_validate x"
| "operation_validate env (Escrow_Transfer_Op x) = escrow_transfer_validate env x"
| "operation_validate env (Escrow_Dispute_Op x) = escrow_dispute_validate x"
| "operation_validate env (Escrow_Release_Op x) = escrow_release_validate x"
| "operation_validate env (Pow_Op x) = pow_operation_validate env x"
| "operation_validate env (Escrow_Approve_Op x) = escrow_approve_validate x"
| "operation_validate env (Vote_Op x) = vote_validate x"
| "operation_validate env (Xtt_Setup_Op x) = xtt_setup_validate x"
| "operation_validate env (Xtt_Setup_Ico_Tier_Op x) = xtt_setup_ico_tier_validate x"
| "operation_validate env (Xtt_Set_Setup_Parameters_Op x) = xtt_set_setup_parameters_validate x"
| "operation_validate env (Xtt_Set_Runtime_Parameters_Op x) = xtt_set_runtime_parameters_validate x"
| "operation_validate env (Xtt_Create_Op x) = xtt_create_validate x"
| "operation_validate env (Xtt_Contribute_Op x) = xtt_contribute_validate x"
| "operation_validate env (Contract_Create_Op x) = contract_create_validate x"
| "operation_validate env (Contract_Invoke_Op x) = contract_invoke_validate x"
| "operation_validate env _ = Inl (Assert_Exception ''This is a virtual operation'')"

section \<open>Required authorities\<close>

text \<open>The names an operation inserts into each set, and the authorities it appends.  The getter
  of \<open>xtt_setup_ico_tier_operation\<close> is named \<open>get_required_active_authorities\<close>, which no
  visitor calls.\<close>

fun required_money :: "operation \<Rightarrow> wallet_name list" where
  "required_money (Wallet_Create_Op x) = [wc_creator x]"
| "required_money (Transfer_Op x) = [tr_from x]"
| "required_money (Escrow_Transfer_Op x) = [et_from x]"
| "required_money (Escrow_Approve_Op x) = [ea_who x]"
| "required_money (Escrow_Dispute_Op x) = [ed_who x]"
| "required_money (Escrow_Release_Op x) = [er_who x]"
| "required_money (Witness_Update_Op x) = [wi_owner x]"
| "required_money (Custom_Op x) = cu_required_auths x"
| "required_money (Custom_Json_Op x) = cj_required_auths x"
| "required_money (Pow_Op x) = (if po_new_recovery_key x = None then [get_worker_name x] else [])"
| "required_money (Request_Wallet_Recovery_Op x) = [rq_recovery_account x]"
| "required_money (Contract_Create_Op x) = [cc_owner x]"
| "required_money (Xtt_Create_Op x) = [xc_control_account x]"
| "required_money (Xtt_Setup_Op x) = [xs_control_account x]"
| "required_money (Xtt_Set_Setup_Parameters_Op x) = [xp_control_account x]"
| "required_money (Xtt_Set_Runtime_Parameters_Op x) = [xr_control_account x]"
| "required_money (Xtt_Contribute_Op x) = [xo_contributor x]"
| "required_money _ = []"

fun required_recovery :: "operation \<Rightarrow> wallet_name list" where
  "required_recovery (Change_Recovery_Wallet_Op x) = [cr_account_to_recover x]"
| "required_recovery (Contract_Create_Op x) = [cc_owner x]"
| "required_recovery _ = []"

fun required_social :: "operation \<Rightarrow> wallet_name list" where
  "required_social (Comment_Op x) = [cm_author x]"
| "required_social (Comment_Options_Op x) = [co_author x]"
| "required_social (Delete_Comment_Op x) = [dc_author x]"
| "required_social (Vote_Op x) = [vo_voter x]"
| "required_social (Custom_Json_Op x) = cj_required_social_auths x"
| "required_social _ = []"

fun required_other :: "operation \<Rightarrow> authority list" where
  "required_other (Pow_Op x) = (case po_new_recovery_key x of None \<Rightarrow> []
     | Some k \<Rightarrow> [add_authority_key k 1 (authority_default\<lparr>weight_threshold := 1\<rparr>)])"
| "required_other (Recover_Wallet_Op x) = [rw_new_recovery_authority x, rw_recent_recovery_authority x]"
| "required_other _ = []"

record required_auths =
  ra_money :: "wallet_name flat_set"
  ra_recovery :: "wallet_name flat_set"
  ra_social :: "wallet_name flat_set"
  ra_other :: "authority list"

definition get_required_auth_visitor :: "operation \<Rightarrow> required_auths \<Rightarrow> required_auths" where
  "get_required_auth_visitor op r =
    \<lparr>ra_money = fold fs_insert (required_money op) (ra_money r),
     ra_recovery = fold fs_insert (required_recovery op) (ra_recovery r),
     ra_social = fold fs_insert (required_social op) (ra_social r),
     ra_other = ra_other r @ required_other op\<rparr>"

definition get_required_authorities :: "operation list \<Rightarrow> required_auths" where
  "get_required_authorities ops = fold get_required_auth_visitor ops
    \<lparr>ra_money = [], ra_recovery = [], ra_social = [], ra_other = []\<rparr>"

section \<open>Verifying authority\<close>

text \<open>A check on the state of the signatures; the alternatives of a disjunction run in order until
  one succeeds, and each leaves its marks on the state.\<close>

type_synonym sign_check = "sign_state \<Rightarrow> (bool \<times> sign_state) result"

fun any_check :: "sign_check list \<Rightarrow> sign_check" where
  "any_check [] s = Inr (False, s)"
| "any_check (c # cs) s = res_bind (c s) (\<lambda>(ok, s). if ok then Inr (True, s) else any_check cs s)"

definition check_got :: "authority_getter \<Rightarrow> wallet_name \<Rightarrow> sign_check" where
  "check_got get name s = res_bind (get name) (\<lambda>auth. check_authority auth s)"

definition require_check :: "fc_error \<Rightarrow> sign_check \<Rightarrow> sign_state \<Rightarrow> sign_state result" where
  "require_check e c s = res_bind (c s) (\<lambda>(ok, s). if ok then Inr s else Inl e)"

record sig_limits =
  lim_recursion :: nat
  lim_membership :: nat
  lim_wallet_auths :: nat

definition limited_state :: "sig_limits \<Rightarrow> public_key flat_set \<Rightarrow> authority_getter \<Rightarrow> public_key flat_set
    \<Rightarrow> wallet_name list \<Rightarrow> sign_state" where
  "limited_state lim sigs get avail approvals =
    (let s = mk_sign_state sigs get avail
     in s\<lparr>max_recursion := lim_recursion lim, max_membership := lim_membership lim,
          max_wallet_auths := lim_wallet_auths lim,
          approved_by := fold fs_insert approvals (approved_by s)\<rparr>)"

record auth_getters =
  get_money :: authority_getter
  get_recovery :: authority_getter
  get_social :: authority_getter

record approvals =
  money_approvals :: "wallet_name flat_set"
  recovery_approvals :: "wallet_name flat_set"
  social_approvals :: "wallet_name flat_set"

definition no_approvals :: approvals where
  "no_approvals = \<lparr>money_approvals = [], recovery_approvals = [], social_approvals = []\<rparr>"

definition verify_authority :: "auth_getters \<Rightarrow> sig_limits \<Rightarrow> approvals \<Rightarrow> operation list
    \<Rightarrow> public_key flat_set \<Rightarrow> unit result" where
  "verify_authority get lim appr ops sigs =
    (let r = get_required_authorities ops in
     if ra_social r \<noteq> [] then
       res_bind (res_all [fc_assert (ra_money r = []) [], fc_assert (ra_recovery r = []) [],
                          fc_assert (ra_other r = []) []]) (\<lambda>_.
       let s = limited_state lim sigs (get_social get) [] (social_approvals appr) in
       res_bind (res_fold (\<lambda>name. require_check Tx_Missing_Social_Auth (any_check
           [check_authority_id name, check_got (get_money get) name, check_got (get_recovery get) name]))
           (ra_social r) s) (\<lambda>_. Inr ()))
     else
       let s = limited_state lim sigs (get_money get) [] (money_approvals appr @ recovery_approvals appr) in
       res_bind (res_fold (\<lambda>auth. require_check Tx_Missing_Other_Auth (check_authority auth)) (ra_other r) s) (\<lambda>s.
       res_bind (res_fold (\<lambda>name. require_check Tx_Missing_Money_Auth (any_check
           [check_authority_id name, check_got (get_recovery get) name])) (ra_money r) s) (\<lambda>s.
       res_bind (res_fold (\<lambda>name s. if name \<in> set (recovery_approvals appr) then Inr s
           else require_check Tx_Missing_Recovery_Auth (check_got (get_recovery get) name) s) (ra_recovery r) s)
         (\<lambda>_. Inr ()))))"

section \<open>Transactions\<close>

record transaction =
  ref_block_num :: "16 word"
  ref_block_prefix :: "32 word"
  tx_expiration :: time_point_sec
  operations :: "operation list"
  tx_extensions :: extensions_type

record signed_transaction = transaction +
  signatures :: "bytes list"

definition transaction_validate :: "proto_env \<Rightarrow> transaction \<Rightarrow> unit result" where
  "transaction_validate env trx =
    res_bind (fc_assert (length (operations trx) > 0) ''A transaction must have at least one operation'') (\<lambda>_.
    res_all (map (operation_validate env) (operations trx)))"

definition set_expiration :: "time_point_sec \<Rightarrow> transaction \<Rightarrow> transaction" where
  "set_expiration t trx = trx\<lparr>tx_expiration := t\<rparr>"

definition set_reference_block :: "block_id_type \<Rightarrow> transaction \<Rightarrow> transaction" where
  "set_reference_block bid trx =
    trx\<lparr>ref_block_num := ucast (num_from_id bid), ref_block_prefix := le_word (take 4 (drop 4 bid))\<rparr>"

definition has_pow_op :: "transaction \<Rightarrow> bool" where
  "has_pow_op trx = list_ex is_pow_operation (operations trx)"

text \<open>The digest that is signed (\<open>sig_digest\<close>) is a hash of the packed transaction, so it is an
  argument.\<close>

definition get_signature_keys :: "proto_env \<Rightarrow> digest \<Rightarrow> bytes list \<Rightarrow> public_key flat_set result" where
  "get_signature_keys env d sigs = res_fold (\<lambda>sig keys.
     res_bind (recover_key env sig d) (\<lambda>k.
       if k \<in> set keys then Inl Tx_Duplicate_Sig else Inr (fs_insert k keys))) sigs []"

definition sign_transaction :: "proto_env \<Rightarrow> digest \<Rightarrow> digest \<Rightarrow> signed_transaction \<Rightarrow> signed_transaction" where
  "sign_transaction env key d trx = trx\<lparr>signatures := signatures trx @ [sign_compact env key d]\<rparr>"

text \<open>A check whose answer is ignored.\<close>

definition run_check :: "sign_check \<Rightarrow> sign_state \<Rightarrow> sign_state result" where
  "run_check c s = res_bind (c s) (\<lambda>(ok, s). Inr s)"

definition used_keys :: "public_key flat_set \<Rightarrow> sign_state \<Rightarrow> public_key flat_set" where
  "used_keys avail s =
    (let s = snd (remove_unused_signatures s)
     in fold (\<lambda>sig res. if fst sig \<in> set avail then fs_insert (fst sig) res else res) (provided_signatures s) [])"

definition get_required_signatures :: "auth_getters \<Rightarrow> sig_limits \<Rightarrow> operation list
    \<Rightarrow> public_key flat_set result \<Rightarrow> public_key flat_set \<Rightarrow> public_key flat_set result" where
  "get_required_signatures get lim ops sig_keys avail =
    (let r = get_required_authorities ops in
     res_bind sig_keys (\<lambda>sigs.
     if ra_social r \<noteq> [] then
       let s = limited_state lim sigs (get_social get) avail [] in
       res_bind (res_all [fc_assert (ra_recovery r = []) [], fc_assert (ra_money r = []) []]) (\<lambda>_.
       res_bind (res_fold (\<lambda>name. run_check (check_authority_id name)) (ra_social r) s) (\<lambda>s.
       Inr (used_keys avail s)))
     else
       let s = limited_state lim sigs (get_money get) avail [] in
       res_bind (res_fold (\<lambda>auth. run_check (check_authority auth)) (ra_other r) s) (\<lambda>s.
       res_bind (res_fold (\<lambda>name. run_check (check_got (get_recovery get) name)) (ra_recovery r) s) (\<lambda>s.
       res_bind (res_fold (\<lambda>name. run_check (check_authority_id name)) (ra_money r) s) (\<lambda>s.
       Inr (used_keys avail s))))))"

fun is_missing_auth :: "fc_error \<Rightarrow> bool" where
  "is_missing_auth Tx_Missing_Recovery_Auth = True"
| "is_missing_auth Tx_Missing_Money_Auth = True"
| "is_missing_auth Tx_Missing_Social_Auth = True"
| "is_missing_auth Tx_Missing_Other_Auth = True"
| "is_missing_auth _ = False"

text \<open>One round of the loop of \<open>minimize_required_signatures\<close>: a key stays out when the rest
  verifies; other exceptions than a missing authority leave the loop.\<close>

definition minimize_step :: "(public_key flat_set \<Rightarrow> unit result) \<Rightarrow> public_key \<Rightarrow> public_key flat_set
    \<Rightarrow> public_key flat_set result" where
  "minimize_step verify k res =
    (let res' = fs_erase k res in
     case verify res' of
       Inr _ \<Rightarrow> Inr res'
     | Inl e \<Rightarrow> if is_missing_auth e then Inr (fs_insert k res') else Inl e)"

definition minimize_required_signatures :: "auth_getters \<Rightarrow> sig_limits \<Rightarrow> operation list
    \<Rightarrow> public_key flat_set result \<Rightarrow> public_key flat_set \<Rightarrow> public_key flat_set result" where
  "minimize_required_signatures get lim ops sig_keys avail =
    res_bind (get_required_signatures get lim ops sig_keys avail) (\<lambda>s.
    res_fold (minimize_step (verify_authority get lim no_approvals ops)) s s)"

section \<open>Reference definitions\<close>

definition sound_check :: "authority_getter \<Rightarrow> public_key set \<Rightarrow> wallet_name set \<Rightarrow> sign_check \<Rightarrow> bool \<Rightarrow> bool" where
  "sound_check get K A c P \<longleftrightarrow> (\<forall>s ok s'. approvals_ok get K A s \<longrightarrow> c s = Inr (ok, s') \<longrightarrow>
     approvals_ok get K A s' \<and> (ok \<longrightarrow> P))"

definition got_authorized :: "authority_getter \<Rightarrow> public_key set \<Rightarrow> wallet_name set \<Rightarrow> authority_getter \<Rightarrow> wallet_name \<Rightarrow> bool" where
  "got_authorized get K A g name \<longleftrightarrow> (\<exists>b. g name = Inr b \<and> authorized get K A b)"

definition social_authorized :: "auth_getters \<Rightarrow> public_key set \<Rightarrow> wallet_name \<Rightarrow> bool" where
  "social_authorized get K name \<longleftrightarrow> name \<in> backed (get_social get) K {''temp''}
     \<or> got_authorized (get_social get) K {''temp''} (get_money get) name
     \<or> got_authorized (get_social get) K {''temp''} (get_recovery get) name"

definition money_authorized :: "auth_getters \<Rightarrow> public_key set \<Rightarrow> wallet_name \<Rightarrow> bool" where
  "money_authorized get K name \<longleftrightarrow> name \<in> backed (get_money get) K {''temp''}
     \<or> got_authorized (get_money get) K {''temp''} (get_recovery get) name"

definition fs_sorted :: "'k::linorder flat_set \<Rightarrow> bool" where
  "fs_sorted s \<longleftrightarrow> sorted s \<and> distinct s"

definition sample_auth :: authority where
  "sample_auth = \<lparr>weight_threshold = 1, wallet_auths = [], key_auths = [(''k1'', 1)]\<rparr>"

definition sample_getters :: auth_getters where
  "sample_getters = \<lparr>get_money = \<lambda>_. Inr sample_auth, get_recovery = \<lambda>_. Inr sample_auth, get_social = \<lambda>_. Inr sample_auth\<rparr>"

definition sample_limits :: sig_limits where
  "sample_limits = \<lparr>lim_recursion = 2, lim_membership = 40, lim_wallet_auths = 125\<rparr>"

definition sample_transfer :: operation where
  "sample_transfer = Transfer_Op \<lparr>tr_from = ''alice'', tr_to = ''bob'', tr_amount = \<lparr>amount = 1, symbol = XGT_SYMBOL\<rparr>, tr_memo = []\<rparr>"

section \<open>The required sets\<close>

lemma set_fold_fs_insert [simp]: "set (fold fs_insert xs s) = set xs \<union> set s"
  by (induction xs arbitrary: s) auto

lemma required_fold:
  "set (ra_money (fold get_required_auth_visitor ops r)) = set (ra_money r) \<union> (\<Union>op\<in>set ops. set (required_money op))"
  "set (ra_recovery (fold get_required_auth_visitor ops r)) = set (ra_recovery r) \<union> (\<Union>op\<in>set ops. set (required_recovery op))"
  "set (ra_social (fold get_required_auth_visitor ops r)) = set (ra_social r) \<union> (\<Union>op\<in>set ops. set (required_social op))"
  "set (ra_other (fold get_required_auth_visitor ops r)) = set (ra_other r) \<union> (\<Union>op\<in>set ops. set (required_other op))"
  by (induction ops arbitrary: r) (auto simp: get_required_auth_visitor_def)

lemma set_required [simp]:
  "set (ra_money (get_required_authorities ops)) = (\<Union>op\<in>set ops. set (required_money op))"
  "set (ra_recovery (get_required_authorities ops)) = (\<Union>op\<in>set ops. set (required_recovery op))"
  "set (ra_social (get_required_authorities ops)) = (\<Union>op\<in>set ops. set (required_social op))"
  "set (ra_other (get_required_authorities ops)) = (\<Union>op\<in>set ops. set (required_other op))"
  by (simp_all add: get_required_authorities_def required_fold)

section \<open>Checks that succeed\<close>

lemma sound_check_authority: "sound_check get K A (check_authority auth) (authorized get K A auth)"
  unfolding sound_check_def check_authority_def
  using check_authority_impl_sound[of get K A] by (fastforce simp: check_sound_def result_simps)

lemma sound_check_authority_id: "sound_check get K A (check_authority_id name) (name \<in> backed get K A)"
  unfolding sound_check_def
proof (intro allI impI)
  fix s ok s'
  assume s: "approvals_ok get K A s" and c: "check_authority_id name s = Inr (ok, s')"
  show "approvals_ok get K A s' \<and> (ok \<longrightarrow> name \<in> backed get K A)"
  proof (cases "name \<in> set (approved_by s)")
    case True
    then show ?thesis using s c by (auto simp: check_authority_id_def approvals_ok_def backed_def)
  next
    case False
    with c s obtain b n where b: "get name = Inr b" "check_authority_impl (max_recursion s) b 1 s = Inr (ok, n, s')"
      by (auto simp: check_authority_id_def approvals_ok_def result_simps)
    then show ?thesis using check_authority_impl_sound[of get K A "max_recursion s"] s
      unfolding check_sound_def backed_def by blast
  qed
qed

lemma sound_check_got: "sound_check get K A (check_got g name) (got_authorized get K A g name)"
  using sound_check_authority[of get K A]
  unfolding sound_check_def check_got_def got_authorized_def by (fastforce simp: result_simps)

lemma sound_any_check:
  assumes "sound_check get K A c P" "sound_check get K A (any_check cs) Q"
  shows "sound_check get K A (any_check (c # cs)) (P \<or> Q)"
  unfolding sound_check_def
proof (intro allI impI)
  fix s ok s'
  assume s: "approvals_ok get K A s" and "any_check (c # cs) s = Inr (ok, s')"
  then obtain ok1 s1 where 1: "c s = Inr (ok1, s1)"
      and 2: "if ok1 then ok \<and> s' = s1 else any_check cs s1 = Inr (ok, s')"
    by (auto simp: result_simps split: if_splits)
  have a: "approvals_ok get K A s1 \<and> (ok1 \<longrightarrow> P)" using assms(1) s 1 unfolding sound_check_def by blast
  then have "\<not> ok1 \<Longrightarrow> approvals_ok get K A s' \<and> (ok \<longrightarrow> Q)"
    using assms(2) 2 unfolding sound_check_def by simp
  with a 2 show "approvals_ok get K A s' \<and> (ok \<longrightarrow> P \<or> Q)" by (cases ok1) auto
qed

lemma sound_any_check_Nil: "sound_check get K A (any_check []) False"
  by (simp add: sound_check_def)

lemma require_check_Inr: "require_check e c s = Inr s' \<longleftrightarrow> c s = Inr (True, s')"
  by (auto simp: require_check_def result_simps split: if_splits)

lemma require_fold_sound:
  assumes "\<forall>x. sound_check get K A (c x) (P x)"
    and "res_fold (\<lambda>x. require_check e (c x)) xs s = Inr s'" "approvals_ok get K A s"
  shows "approvals_ok get K A s' \<and> (\<forall>x\<in>set xs. P x)"
  using assms(2,3)
proof (induction xs arbitrary: s)
  case (Cons x xs)
  then obtain s1 where "c x s = Inr (True, s1)" "res_fold (\<lambda>x. require_check e (c x)) xs s1 = Inr s'"
    by (auto simp: require_check_Inr result_simps)
  with Cons assms(1) show ?case unfolding sound_check_def by auto
qed simp

lemma provided_after_constructor:
  "fst ` set (provided_signatures (mk_sign_state sigs get avail)) = set sigs"
proof -
  have "fst ` set (fold (\<lambda>key. fm_update key False) ks m) = set ks \<union> fst ` set m" for ks :: "public_key list" and m
    by (induction ks arbitrary: m) (auto simp: set_fm_update_keys)
  then show ?thesis by (simp add: mk_sign_state_def)
qed

lemma limited_state_ok:
  assumes "0 < lim_membership lim" "lim_membership lim \<le> 65536"
  shows "approvals_ok get (set sigs \<union> set avail) ({''temp''} \<union> set appr) (limited_state lim sigs get avail appr)"
  using assms provided_after_constructor[of sigs get avail]
  by (auto simp: approvals_ok_def limited_state_def signers_def bounded_membership_def Let_def mk_sign_state_def)

lemmas sound_checks = sound_check_authority sound_check_authority_id sound_check_got sound_any_check sound_any_check_Nil

lemma sound_any_check_2:
  "sound_check get K A c P \<Longrightarrow> sound_check get K A d Q \<Longrightarrow> sound_check get K A (any_check [c, d]) (P \<or> Q)"
  using sound_any_check[OF _ sound_any_check[OF _ sound_any_check_Nil]] by simp

lemma sound_any_check_3:
  "sound_check get K A c P \<Longrightarrow> sound_check get K A d Q \<Longrightarrow> sound_check get K A e R \<Longrightarrow>
    sound_check get K A (any_check [c, d, e]) (P \<or> Q \<or> R)"
  using sound_any_check[OF _ sound_any_check[OF _ sound_any_check[OF _ sound_any_check_Nil]]] by simp

lemma verify_social_sound:
  assumes "verify_authority get lim no_approvals ops sigs = Inr ()" "0 < lim_membership lim" "lim_membership lim \<le> 65536"
    and soc: "ra_social (get_required_authorities ops) \<noteq> []"
  shows "ra_money (get_required_authorities ops) = [] \<and> ra_recovery (get_required_authorities ops) = []
    \<and> ra_other (get_required_authorities ops) = []
    \<and> (\<forall>name\<in>set (ra_social (get_required_authorities ops)). social_authorized get (set sigs) name)"
proof -
  let ?r = "get_required_authorities ops" and ?s = "limited_state lim sigs (get_social get) [] []"
  obtain s' where e: "ra_money ?r = []" "ra_recovery ?r = []" "ra_other ?r = []"
    and f: "res_fold (\<lambda>name. require_check Tx_Missing_Social_Auth (any_check
           [check_authority_id name, check_got (get_money get) name, check_got (get_recovery get) name]))
           (ra_social ?r) ?s = Inr s'"
    using assms(1) soc by (auto simp: verify_authority_def Let_def no_approvals_def result_simps split: if_splits)
  have "approvals_ok (get_social get) (set sigs) {''temp''} ?s"
    using limited_state_ok[OF assms(2,3), of "get_social get" sigs "[]" "[]"] by simp
  from require_fold_sound[OF _ f this, of "social_authorized get (set sigs)"] e show ?thesis
    unfolding social_authorized_def by (simp add: sound_any_check_3 sound_check_authority_id sound_check_got)
qed

lemma verify_money_sound:
  assumes "verify_authority get lim no_approvals ops sigs = Inr ()" "0 < lim_membership lim" "lim_membership lim \<le> 65536"
    and soc: "ra_social (get_required_authorities ops) = []"
  shows "(\<forall>auth\<in>set (ra_other (get_required_authorities ops)). authorized (get_money get) (set sigs) {''temp''} auth)
    \<and> (\<forall>name\<in>set (ra_money (get_required_authorities ops)). money_authorized get (set sigs) name)
    \<and> (\<forall>name\<in>set (ra_recovery (get_required_authorities ops)).
         got_authorized (get_money get) (set sigs) {''temp''} (get_recovery get) name)"
proof -
  let ?r = "get_required_authorities ops" and ?s = "limited_state lim sigs (get_money get) [] []"
  let ?G = "get_money get" and ?K = "set sigs" and ?A = "{''temp''}"
  obtain s1 s2 s3 where
      f1: "res_fold (\<lambda>auth. require_check Tx_Missing_Other_Auth (check_authority auth)) (ra_other ?r) ?s = Inr s1"
    and f2: "res_fold (\<lambda>name. require_check Tx_Missing_Money_Auth (any_check
           [check_authority_id name, check_got (get_recovery get) name])) (ra_money ?r) s1 = Inr s2"
    and f3: "res_fold (\<lambda>name. require_check Tx_Missing_Recovery_Auth (check_got (get_recovery get) name)) (ra_recovery ?r) s2 = Inr s3"
    using assms(1) soc by (auto simp: verify_authority_def Let_def no_approvals_def result_simps)
  have 0: "approvals_ok ?G ?K ?A ?s"
    using limited_state_ok[OF assms(2,3), of "get_money get" sigs "[]" "[]"] by simp
  have 1: "approvals_ok ?G ?K ?A s1 \<and> (\<forall>a\<in>set (ra_other ?r). authorized ?G ?K ?A a)"
    using require_fold_sound[OF _ f1 0] sound_check_authority by blast
  have 2: "approvals_ok ?G ?K ?A s2 \<and> (\<forall>a\<in>set (ra_money ?r). money_authorized get ?K a)"
    by (rule require_fold_sound[OF _ f2 conjunct1[OF 1]])
      (simp add: money_authorized_def sound_any_check_2 sound_check_authority_id sound_check_got)
  have 3: "approvals_ok ?G ?K ?A s3 \<and> (\<forall>a\<in>set (ra_recovery ?r). got_authorized ?G ?K ?A (get_recovery get) a)"
    by (rule require_fold_sound[OF _ f3 conjunct1[OF 2]]) (simp add: sound_check_got)
  from 1 2 3 show ?thesis by blast
qed

section \<open>Minimizing signatures\<close>

lemma fs_sorted_insert: "fs_sorted s \<Longrightarrow> fs_sorted (fs_insert k s)"
  by (auto simp: fs_sorted_def fs_insert_def sorted_insort distinct_insort)

lemma fs_sorted_erase: "fs_sorted s \<Longrightarrow> fs_sorted (fs_erase k s)"
  by (auto simp: fs_sorted_def fs_erase_def sorted_wrt_filter)

lemma fs_insert_erase: "fs_sorted s \<Longrightarrow> k \<in> set s \<Longrightarrow> fs_insert k (fs_erase k s) = s"
  using fs_sorted_insert[OF fs_sorted_erase[of s k], of k]
  by (intro sorted_distinct_set_unique) (auto simp: fs_sorted_def)

lemma used_keys_sorted: "fs_sorted (used_keys avail s)"
proof -
  have "fs_sorted res \<Longrightarrow> fs_sorted (fold (\<lambda>sig res. if fst sig \<in> set avail then fs_insert (fst sig) res else res) ps res)"
    for ps :: "(public_key \<times> bool) list" and res
    by (induction ps arbitrary: res) (auto simp: fs_sorted_insert)
  moreover have "fs_sorted ([] :: public_key list)" by (simp add: fs_sorted_def)
  ultimately show ?thesis by (simp add: used_keys_def Let_def)
qed

lemma get_required_signatures_sorted:
  "get_required_signatures get lim ops sk avail = Inr s \<Longrightarrow> fs_sorted s"
  by (auto simp: get_required_signatures_def Let_def result_simps used_keys_sorted split: if_splits)

lemma minimize_loop:
  assumes "res_fold (minimize_step verify) ks res = Inr res'" "fs_sorted res" "distinct ks" "set ks \<subseteq> set res"
    and "verify res = Inr ()"
  shows "verify res' = Inr () \<and> set res' \<subseteq> set res"
  using assms
proof (induction ks arbitrary: res)
  case (Cons k ks)
  then obtain r where r: "minimize_step verify k res = Inr r" "res_fold (minimize_step verify) ks r = Inr res'"
    by (auto simp: result_simps)
  have "fs_insert k (fs_erase k res) = res" using Cons.prems by (simp add: fs_insert_erase)
  then consider "r = fs_erase k res" "verify r = Inr ()" | "r = res"
    using r(1) by (auto simp: minimize_step_def Let_def split: sum.splits if_splits)
  then show ?case
  proof cases
    case 1
    have "set ks \<subseteq> set r" using Cons.prems 1(1) by auto
    then have "verify res' = Inr () \<and> set res' \<subseteq> set r"
      using Cons.IH[OF r(2)] Cons.prems 1 by (simp add: fs_sorted_erase)
    then show ?thesis using 1(1) by auto
  next
    case 2
    then show ?thesis using Cons.IH[OF r(2)] Cons.prems by simp
  qed
qed simp

lemmas transaction_eval = verify_authority_def get_required_authorities_def get_required_auth_visitor_def
  sample_transfer_def sample_limits_def sample_getters_def sample_auth_def limited_state_def mk_sign_state_def
  no_approvals_def require_check_def check_authority_id_def check_authority_def check_members_def check_got_def signed_by_def
  fs_insert_def fs_erase_def Let_def numeral_2_eq_2 get_required_signatures_def run_check_def used_keys_def
  remove_unused_signatures_def minimize_required_signatures_def minimize_step_def

lemma sample_verifies: "verify_authority sample_getters sample_limits no_approvals [sample_transfer] [''k1''] = Inr ()"
  by (simp add: transaction_eval)

section \<open>Properties\<close>

text \<open>C24: When the authority check of a list of operations succeeds, every operation has its authorities: for each wallet it requires money authority of, the given keys reach the threshold of the money or the recovery authority, directly or through wallets they authorize; likewise the recovery authority, the social authority (or a stronger one) and the authorities it names itself.\<close>

theorem verify_authority_sound:
  assumes "verify_authority get lim no_approvals ops sigs = Inr ()" "0 < lim_membership lim" "lim_membership lim \<le> 65536"
    and "op \<in> set ops"
  shows "(\<forall>name\<in>set (required_money op). money_authorized get (set sigs) name)
    \<and> (\<forall>name\<in>set (required_recovery op). got_authorized (get_money get) (set sigs) {''temp''} (get_recovery get) name)
    \<and> (\<forall>name\<in>set (required_social op). social_authorized get (set sigs) name)
    \<and> (\<forall>auth\<in>set (required_other op). authorized (get_money get) (set sigs) {''temp''} auth)"
proof (cases "ra_social (get_required_authorities ops) = []")
  case True
  then have "set (ra_social (get_required_authorities ops)) = {}" by simp
  then have "required_social op = []" using assms(4) by simp
  then show ?thesis using verify_money_sound[OF assms(1-3) True] assms(4) by auto
next
  case False
  note s = verify_social_sound[OF assms(1-3) False]
  then have "set (ra_money (get_required_authorities ops)) = {}" "set (ra_recovery (get_required_authorities ops)) = {}"
    "set (ra_other (get_required_authorities ops)) = {}" by simp_all
  then have "required_money op = []" "required_recovery op = []" "required_other op = []" using assms(4) by simp_all
  then show ?thesis using s assms(4) by auto
qed

theorem verify_authority_sound_witness:
  "verify_authority sample_getters sample_limits no_approvals [sample_transfer] [''k1''] = Inr ()
   \<and> money_authorized sample_getters {''k1''} ''alice''"
  using verify_authority_sound[OF sample_verifies, of sample_transfer] sample_verifies
  by (simp add: sample_limits_def) (simp add: sample_transfer_def)

text \<open>C25: Minimizing the required signatures only removes keys, and the keys that remain still pass the authority check whenever the required ones do.\<close>

theorem minimized_signatures_verify:
  assumes "get_required_signatures get lim ops sig_keys avail = Inr s"
    and "verify_authority get lim no_approvals ops s = Inr ()"
    and "minimize_required_signatures get lim ops sig_keys avail = Inr res"
  shows "verify_authority get lim no_approvals ops res = Inr () \<and> set res \<subseteq> set s"
  using assms minimize_loop[of "verify_authority get lim no_approvals ops" s s res] get_required_signatures_sorted[OF assms(1)]
  by (simp add: minimize_required_signatures_def fs_sorted_def)

theorem minimized_signatures_verify_witness:
  "get_required_signatures sample_getters sample_limits [sample_transfer] (Inr []) [''k1'', ''k2''] = Inr [''k1'']
   \<and> minimize_required_signatures sample_getters sample_limits [sample_transfer] (Inr []) [''k1'', ''k2''] = Inr [''k1'']
   \<and> verify_authority sample_getters sample_limits no_approvals [sample_transfer] [''k1''] = Inr ()"
proof -
  have r: "get_required_signatures sample_getters sample_limits [sample_transfer] (Inr []) [''k1'', ''k2''] = Inr [''k1'']"
    by (auto simp: transaction_eval)
  moreover have m: "minimize_required_signatures sample_getters sample_limits [sample_transfer] (Inr []) [''k1'', ''k2''] = Inr [''k1'']"
    unfolding minimize_required_signatures_def r by (simp add: transaction_eval)
  ultimately show ?thesis using minimized_signatures_verify[OF r sample_verifies m] by simp
qed


end
