(* ===== verification/Block.thy ===== *)
theory Block
  imports Transactions
begin

text \<open>
  Blocks: \<open>libraries/protocol/include/xgt/protocol/block.hpp\<close> and \<open>block.cpp\<close>.  The header of a
  block is in \<open>Xgt_Operations\<close>.  The lemmas show that a block carries its number in its
  identifier and that the Merkle loop, which hashes pairs in place, computes the root of the
  tree of its transactions, from which the transactions can be told apart.
\<close>

section \<open>The Merkle root\<close>

record signed_block = signed_block_header +
  transactions :: "signed_transaction list"

text \<open>
  One pass of the loop over the first \<open>n\<close> hashes: \<open>k\<close> is the next place to write, \<open>i\<close> the next
  pair to read.  The hash of a pair of digests is a parameter, and digests are of any type.
\<close>

function merkle_pass :: "('d \<Rightarrow> 'd \<Rightarrow> 'd) \<Rightarrow> nat \<Rightarrow> nat \<Rightarrow> nat \<Rightarrow> 'd list \<Rightarrow> nat \<times> 'd list" where
  "merkle_pass h i_max i k ids =
    (if i < i_max then merkle_pass h i_max (i + 2) (k + 1) (ids[k := h (ids ! i) (ids ! (i + 1))])
     else (k, ids))"
  by pat_completeness auto

termination by (relation "measure (\<lambda>(h, i_max, i, k, ids). i_max - i)") auto

declare merkle_pass.simps [simp del]

text \<open>The outer loop; one hash is left after at most as many passes as there are hashes.\<close>

fun merkle_loop :: "nat \<Rightarrow> ('d \<Rightarrow> 'd \<Rightarrow> 'd) \<Rightarrow> nat \<Rightarrow> 'd list \<Rightarrow> 'd list option" where
  "merkle_loop fuel h n ids =
    (if n \<le> 1 then Some ids
     else case fuel of 0 \<Rightarrow> None
     | Suc fuel \<Rightarrow>
       let i_max = n - n mod 2;
           (k, ids) = merkle_pass h i_max 0 0 ids;
           (k, ids) = (if n mod 2 = 1 then (k + 1, ids[k := ids ! i_max]) else (k, ids))
       in merkle_loop fuel h k ids)"

declare merkle_loop.simps [simp del]

text \<open>The empty block has the default checksum; \<open>final\<close> is the hash of the last digest.\<close>

definition calculate_merkle_root :: "('d \<Rightarrow> 'd \<Rightarrow> 'd) \<Rightarrow> ('d \<Rightarrow> 'c) \<Rightarrow> 'c \<Rightarrow> ('t \<Rightarrow> 'd) \<Rightarrow> 't list \<Rightarrow> 'c option" where
  "calculate_merkle_root h final zero merkle_digest txs =
    (if length txs = 0 then Some zero
     else let ids = map merkle_digest txs in
       map_option (\<lambda>ids. final (ids ! 0)) (merkle_loop (length ids) h (length ids) ids))"

section \<open>Reference definitions\<close>

fun pair_up :: "('d \<Rightarrow> 'd \<Rightarrow> 'd) \<Rightarrow> 'd list \<Rightarrow> 'd list" where
  "pair_up h [] = []"
| "pair_up h [x] = [x]"
| "pair_up h (x # y # zs) = h x y # pair_up h zs"

function merkle_root :: "('d \<Rightarrow> 'd \<Rightarrow> 'd) \<Rightarrow> 'd list \<Rightarrow> 'd" where
  "merkle_root h xs = (if length xs \<le> 1 then hd xs else merkle_root h (pair_up h xs))"
  by pat_completeness auto

termination
proof (relation "measure (\<lambda>(h, xs). length xs)")
  have le: "length (pair_up h xs) \<le> length xs" for h :: "'a \<Rightarrow> 'a \<Rightarrow> 'a" and xs
    by (induction h xs rule: pair_up.induct) auto
  show "((h, pair_up h xs), h, xs) \<in> measure (\<lambda>(h, xs). length xs)" if "\<not> length xs \<le> 1"
    for h :: "'a \<Rightarrow> 'a \<Rightarrow> 'a" and xs
    using that le[of h "tl (tl xs)"] by (cases xs; cases "tl xs") auto
qed simp

declare merkle_root.simps [simp del]

text \<open>An injective pairing of lists, for the witness.\<close>

definition sample_pair :: "nat list \<Rightarrow> nat list \<Rightarrow> nat list" where
  "sample_pair a b = length a # a @ b"

section \<open>The loop computes the root\<close>

lemma length_pair_up [simp]: "length (pair_up h xs) = (length xs + 1) div 2"
  by (induction h xs rule: pair_up.induct) auto

lemma nth_pair_up:
  "m < (length xs + 1) div 2 \<Longrightarrow>
    pair_up h xs ! m = (if 2 * m + 1 < length xs then h (xs ! (2 * m)) (xs ! (2 * m + 1)) else xs ! (2 * m))"
proof (induction h xs arbitrary: m rule: pair_up.induct)
  case (3 h x y zs)
  then show ?case by (cases m) auto
qed auto

lemma merkle_pass_spec:
  assumes "i = 2 * k" "even i_max" "i \<le> i_max" "i_max \<le> length ids" "merkle_pass h i_max i k ids = (k', ids')"
  shows "k' = i_max div 2 \<and> length ids' = length ids \<and> (\<forall>m. k' \<le> m \<longrightarrow> ids' ! m = ids ! m)
    \<and> (\<forall>m < k'. ids' ! m = (if m < k then ids ! m else h (ids ! (2 * m)) (ids ! (2 * m + 1))))"
  using assms
proof (induction h i_max i k ids arbitrary: k' ids' rule: merkle_pass.induct)
  case (1 h i_max i k ids)
  show ?case
  proof (cases "i < i_max")
    case False
    then show ?thesis using 1(2-6) by (auto simp: merkle_pass.simps)
  next
    case True
    then have i2: "i + 2 \<le> i_max" using 1(2,3) by (auto elim!: evenE)
    let ?ids = "ids[k := h (ids ! i) (ids ! (i + 1))]"
    have s: "merkle_pass h i_max (i + 2) (k + 1) ?ids = (k', ids')"
      using 1(6) True by (simp add: merkle_pass.simps[of h i_max i])
    have k': "k' = i_max div 2" "length ids' = length ids" "\<forall>m. k' \<le> m \<longrightarrow> ids' ! m = ?ids ! m"
        "\<forall>m < k'. ids' ! m = (if m < k + 1 then ?ids ! m else h (?ids ! (2 * m)) (?ids ! (2 * m + 1)))"
      using 1(1)[OF True _ _ _ _ s] 1(2-5) i2 by auto
    have k: "k < k'" using k'(1) i2 1(2) by simp
    have "k < length ids" using k k'(1) 1(5) by simp
    have "ids' ! m = (if m < k then ids ! m else h (ids ! (2 * m)) (ids ! (2 * m + 1)))" if "m < k'" for m
    proof -
      consider "m < k" | "m = k" | "k < m" by linarith
      then show ?thesis using k'(4) that \<open>k < length ids\<close> 1(2) by cases auto
    qed
    moreover have "ids' ! m = ids ! m" if "k' \<le> m" for m using k'(3) that k by auto
    ultimately show ?thesis using k'(1,2) by blast
  qed
qed

lemma merkle_round:
  assumes "2 \<le> n" "n \<le> length ids" "merkle_pass h (n - n mod 2) 0 0 ids = (k, ids')"
  defines "r \<equiv> (if n mod 2 = 1 then (k + 1, ids'[k := ids' ! (n - n mod 2)]) else (k, ids'))"
  shows "fst r = (n + 1) div 2 \<and> length (snd r) = length ids \<and> take (fst r) (snd r) = pair_up h (take n ids)"
proof -
  let ?m = "n - n mod 2"
  have e: "even ?m" "?m \<le> n" by (simp_all add: minus_mod_eq_mult_div)
  have p: "k = ?m div 2" "length ids' = length ids" "\<forall>m. k \<le> m \<longrightarrow> ids' ! m = ids ! m"
      "\<forall>m < k. ids' ! m = h (ids ! (2 * m)) (ids ! (2 * m + 1))"
    using merkle_pass_spec[of 0 0 ?m ids h k ids'] e assms(2,3) by auto
  have n: "n = 2 * k + n mod 2" using p(1) e(1) by (metis dvd_mult_div_cancel le_add_diff_inverse2 mod_less_eq_dividend)
  have f: "fst r = (n + 1) div 2" using n by (auto simp: r_def)
  have l: "length (snd r) = length ids" using p(2) by (simp add: r_def)
  have "take (fst r) (snd r) = pair_up h (take n ids)"
  proof (rule nth_equalityI)
    show "length (take (fst r) (snd r)) = length (pair_up h (take n ids))" using f l assms(1,2) by simp
    fix m assume "m < length (take (fst r) (snd r))"
    then have m: "m < (n + 1) div 2" using f by simp
    have len: "length (take n ids) = n" using assms(2) by simp
    have "snd r ! m = (if 2 * m + 1 < n then h (ids ! (2 * m)) (ids ! (2 * m + 1)) else ids ! (2 * m))"
    proof (cases "m < k")
      case True
      then show ?thesis using p(4) n by (auto simp: r_def)
    next
      case False
      then have "n mod 2 = 1" "m = k" using m n by presburger+
      then have mk: "?m = 2 * k" "k < length ids'" "n = 2 * k + 1" using n p(2) assms(2) by linarith+
      have "ids' ! ?m = ids ! (2 * k)" using p(3) mk(1) by simp
      then show ?thesis using mk \<open>n mod 2 = 1\<close> \<open>m = k\<close> by (simp add: r_def)
    qed
    then show "take (fst r) (snd r) ! m = pair_up h (take n ids) ! m"
      using m f nth_pair_up[of m "take n ids" h] len assms(2) by auto
  qed
  with f l show ?thesis by blast
qed

lemma merkle_loop_returns:
  assumes "1 \<le> n" "n \<le> length ids" "n \<le> fuel + 1"
  shows "\<exists>ids'. merkle_loop fuel h n ids = Some ids' \<and> ids' ! 0 = merkle_root h (take n ids)"
  using assms
proof (induction fuel arbitrary: n ids)
  case 0
  then show ?case by (cases ids) (auto simp: merkle_loop.simps merkle_root.simps)
next
  case (Suc fuel)
  show ?case
  proof (cases "n \<le> 1")
    case True
    then show ?thesis using Suc.prems by (cases ids) (auto simp: merkle_loop.simps merkle_root.simps)
  next
    case False
    then have "2 \<le> n" by simp
    obtain k ids' where p: "merkle_pass h (n - n mod 2) 0 0 ids = (k, ids')" by force
    obtain k2 ids2 where r: "(if n mod 2 = 1 then (k + 1, ids'[k := ids' ! (n - n mod 2)]) else (k, ids')) = (k2, ids2)"
      by force
    have k2: "k2 = (n + 1) div 2" "length ids2 = length ids" "take k2 ids2 = pair_up h (take n ids)"
      using merkle_round[OF \<open>2 \<le> n\<close> Suc.prems(2) p] unfolding r fst_conv snd_conv by blast+
    have "1 \<le> k2" "k2 \<le> length ids2" "k2 \<le> fuel + 1" using k2 Suc.prems False by simp_all
    then obtain ids3 where "merkle_loop fuel h k2 ids2 = Some ids3" "ids3 ! 0 = merkle_root h (take k2 ids2)"
      using Suc.IH by blast
    moreover have "merkle_loop (Suc fuel) h n ids = merkle_loop fuel h k2 ids2"
      using False r by (simp add: merkle_loop.simps[of "Suc fuel"] p Let_def)
    moreover have "merkle_root h (take n ids) = merkle_root h (pair_up h (take n ids))"
      using False Suc.prems(2) by (subst merkle_root.simps) simp
    ultimately show ?thesis using k2(3) by simp
  qed
qed

lemma pair_up_inj:
  assumes "\<forall>a b c d. h a b = h c d \<longrightarrow> a = c \<and> b = d"
  shows "length xs = length ys \<Longrightarrow> pair_up h xs = pair_up h ys \<Longrightarrow> xs = ys"
proof (induction xs arbitrary: ys rule: induct_list012)
  case (2 x)
  then show ?case by (cases ys) auto
next
  case (3 x y zs)
  have "ys \<noteq> []" "tl ys \<noteq> []" using 3(3) by (cases ys; force)+
  then obtain a b cs where ys: "ys = a # b # cs" by (metis list.exhaust_sel)
  have h: "h x y = h a b" and cs: "pair_up h zs = pair_up h cs" "length zs = length cs"
    using 3(3,4) by (simp_all add: ys)
  have "x = a \<and> y = b" using assms h by blast
  then show ?case using 3(1)[OF cs(2,1)] ys by simp
qed simp

lemma merkle_root_inj:
  assumes "\<forall>a b c d. h a b = h c d \<longrightarrow> a = c \<and> b = d"
  shows "length xs = length ys \<Longrightarrow> xs \<noteq> [] \<Longrightarrow> merkle_root h xs = merkle_root h ys \<Longrightarrow> xs = ys"
proof (induction "length xs" arbitrary: xs ys rule: less_induct)
  case less
  show ?case
  proof (cases "length xs \<le> 1")
    case True
    then obtain x y where "xs = [x]" "ys = [y]" using less.prems(1,2) by (cases xs; cases ys) auto
    then show ?thesis using less.prems(3) by (simp add: merkle_root.simps)
  next
    case False
    then have r: "merkle_root h (pair_up h xs) = merkle_root h (pair_up h ys)"
      using less.prems(1,3) merkle_root.simps[of h xs] merkle_root.simps[of h ys] by simp
    have "length (pair_up h xs) < length xs" "length (pair_up h xs) = length (pair_up h ys)" "pair_up h xs \<noteq> []"
      using False less.prems(1) length_pair_up[of h xs] by (auto simp flip: length_0_conv)
    then have "pair_up h xs = pair_up h ys" using less.hyps[of "pair_up h xs" "pair_up h ys"] r by blast
    then show ?thesis using pair_up_inj[OF assms less.prems(1)] by blast
  qed
qed

lemma merkle_root_some:
  "calculate_merkle_root h final zero md txs =
    Some (if txs = [] then zero else final (merkle_root h (map md txs)))"
proof (cases txs)
  case (Cons t ts)
  then have "1 \<le> length txs" by simp
  then show ?thesis
    using merkle_loop_returns[of "length txs" "map md txs" "length txs" h] Cons
    by (auto simp: calculate_merkle_root_def Let_def)
qed (simp add: calculate_merkle_root_def)

section \<open>Properties\<close>

text \<open>C27: The Merkle loop always ends, and the in-place passes compute the root of the tree that pairs neighbours level by level, an odd hash moving up unchanged.\<close>

theorem merkle_root_returns:
  "calculate_merkle_root h final zero md txs =
    Some (if txs = [] then zero else final (merkle_root h (map md txs)))"
  by (rule merkle_root_some)



text \<open>The number read from the identifier of a block is the number of the block, whatever the hash is.\<close>

theorem block_id_carries_number:
  "num_from_id (block_id env h) = block_num h"
proof -
  have "take 4 (block_id env h) = rev (le_bytes 4 (block_num h))" by (simp add: block_id_def)
  then show ?thesis by (simp add: num_from_id_def le_word_le_bytes)
qed

end
