(* ===== verification/Fork_Database.thy ===== *)
theory Fork_Database
  imports Block
begin

text \<open>
  The fork database: \<open>libraries/chain/include/xgt/chain/fork_database.hpp\<close> and
  \<open>fork_database.cpp\<close>.  It keeps the recent blocks of every fork, linked by weak pointers to
  their predecessors, and the blocks whose predecessor has not arrived.  The lemmas show that the
  links form a tree in which numbers grow by one along every link, that the head is a
  longest chain, that a cached block is linked as soon as its predecessor arrives, and that
  two branches are followed back to a common predecessor.
\<close>

section \<open>Items and the store\<close>

text \<open>
  Items are shared between the two indices, the head and the callers, so they live in a
  store: an address is a position in the list of all items ever allocated.  The first component
  of a multi-index container that matters is the order by number (\<open>block_num\<close>, equal numbers in
  the order of insertion), in which both containers are kept.
\<close>

record fork_item =
  fi_prev :: "nat option"
  fi_num :: "32 word"
  fi_invalid :: bool
  fi_id :: block_id_type
  fi_data :: signed_block

definition previous_id :: "fork_item \<Rightarrow> block_id_type" where
  "previous_id it = previous (fi_data it)"

definition mk_fork_item :: "proto_env \<Rightarrow> signed_block \<Rightarrow> fork_item" where
  "mk_fork_item env b = \<lparr>fi_prev = None, fi_num = block_num b, fi_invalid = False,
     fi_id = block_id env (signed_block_header.truncate b), fi_data = b\<rparr>"

definition XGT_FORK_DB_MAX_SIZE :: "32 word" where "XGT_FORK_DB_MAX_SIZE = 1024"

record fork_database =
  fd_store :: "fork_item list"
  fd_index :: "nat list"
  fd_unlinked :: "nat list"
  fd_head :: "nat option"
  fd_max_size :: "32 word"

definition fork_database_init :: fork_database where
  "fork_database_init = \<lparr>fd_store = [], fd_index = [], fd_unlinked = [], fd_head = None,
     fd_max_size = XGT_FORK_DB_MAX_SIZE\<rparr>"

definition item_at :: "fork_database \<Rightarrow> nat \<Rightarrow> fork_item" where
  "item_at db a = fd_store db ! a"

definition num_at :: "fork_database \<Rightarrow> nat \<Rightarrow> nat" where
  "num_at db a = unat (fi_num (item_at db a))"

text \<open>A weak pointer can be locked while an index, the head or a caller (\<open>pins\<close>) still holds
  the item.\<close>

definition item_live :: "nat list \<Rightarrow> fork_database \<Rightarrow> nat \<Rightarrow> bool" where
  "item_live pins db a \<longleftrightarrow> a \<in> set (fd_index db) \<or> a \<in> set (fd_unlinked db) \<or> fd_head db = Some a \<or> a \<in> set pins"

definition lock_prev :: "nat list \<Rightarrow> fork_database \<Rightarrow> nat \<Rightarrow> nat option" where
  "lock_prev pins db a =
    (case fi_prev (item_at db a) of None \<Rightarrow> None
     | Some p \<Rightarrow> if item_live pins db p then Some p else None)"

definition find_id :: "fork_database \<Rightarrow> nat list \<Rightarrow> block_id_type \<Rightarrow> nat option" where
  "find_id db idx bid = find (\<lambda>a. fi_id (item_at db a) = bid) idx"

fun insert_by_num :: "(nat \<Rightarrow> nat) \<Rightarrow> nat \<Rightarrow> nat list \<Rightarrow> nat list" where
  "insert_by_num f a [] = [a]"
| "insert_by_num f a (x # xs) = (if f a < f x then a # x # xs else x # insert_by_num f a xs)"

definition index_insert :: "fork_database \<Rightarrow> nat \<Rightarrow> nat list \<Rightarrow> nat list" where
  "index_insert db a idx =
    (if find_id db idx (fi_id (item_at db a)) = None then insert_by_num (num_at db) a idx else idx)"

definition new_item :: "proto_env \<Rightarrow> signed_block \<Rightarrow> fork_database \<Rightarrow> nat \<times> fork_database" where
  "new_item env b db = (length (fd_store db), db\<lparr>fd_store := fd_store db @ [mk_fork_item env b]\<rparr>)"

section \<open>Operations\<close>

definition fork_reset :: "fork_database \<Rightarrow> fork_database" where
  "fork_reset db = db\<lparr>fd_head := None, fd_index := []\<rparr>"

definition fork_pop_block :: "nat list \<Rightarrow> fork_database \<Rightarrow> fork_database result" where
  "fork_pop_block pins db =
    (case fd_head db of None \<Rightarrow> Inl (Assert_Exception ''cannot pop an empty fork database'')
     | Some h \<Rightarrow> (case lock_prev pins db h of
         None \<Rightarrow> Inl (Assert_Exception ''popping head block would leave fork DB empty'')
       | Some p \<Rightarrow> Inr (db\<lparr>fd_head := Some p\<rparr>)))"

definition start_block :: "proto_env \<Rightarrow> signed_block \<Rightarrow> fork_database \<Rightarrow> fork_database" where
  "start_block env b db =
    (let (a, db) = new_item env b db
     in db\<lparr>fd_index := index_insert db a (fd_index db), fd_head := Some a\<rparr>)"

text \<open>The oldest number that is still cached, in signed 64-bit arithmetic.\<close>

definition oldest_num :: "fork_database \<Rightarrow> nat \<Rightarrow> int" where
  "oldest_num db h = max 0 (int (num_at db h) - uint (fd_max_size db))"

text \<open>
  \<open>_push_block\<close> up to its last call: the check that the block is not too old, the link to the
  predecessor, the insertion and the new head.
\<close>

definition check_age :: "nat \<Rightarrow> fork_database \<Rightarrow> unit result" where
  "check_age a db =
    (case fd_head db of None \<Rightarrow> Inr ()
     | Some h \<Rightarrow> if int (num_at db a) > oldest_num db h then Inr () else Inl Block_Too_Old_Exception)"

definition link_prev :: "nat \<Rightarrow> fork_database \<Rightarrow> fork_database result" where
  "link_prev a db =
    (let it = item_at db a in
     if fd_head db \<noteq> None \<and> previous_id it \<noteq> replicate 20 0 then
       (case find_id db (fd_index db) (previous_id it) of
         None \<Rightarrow> Inl Unlinkable_Block_Exception
       | Some p \<Rightarrow>
         if fi_invalid (item_at db p) then Inl (Assert_Exception [])
         else Inr (db\<lparr>fd_store := (fd_store db)[a := it\<lparr>fi_prev := Some p\<rparr>]\<rparr>))
     else Inr db)"

definition insert_item :: "nat \<Rightarrow> fork_database \<Rightarrow> fork_database" where
  "insert_item a db =
    db\<lparr>fd_index := index_insert db a (fd_index db),
       fd_head := (case fd_head db of None \<Rightarrow> Some a
                   | Some h \<Rightarrow> if num_at db a > num_at db h then Some a else Some h)\<rparr>"

definition link_item :: "nat \<Rightarrow> fork_database \<Rightarrow> fork_database result" where
  "link_item a db =
    res_bind (check_age a db) (\<lambda>_. res_bind (link_prev a db) (\<lambda>db. Inr (insert_item a db)))"

text \<open>
  Which of several cached blocks with the same predecessor the hashed index finds first is
  not specified; \<open>sel\<close> stands for it.
\<close>

definition pick :: "(nat list \<Rightarrow> nat) \<Rightarrow> nat list \<Rightarrow> nat" where
  "pick sel xs = xs ! (sel xs mod length xs)"

definition waiting :: "fork_database \<Rightarrow> nat \<Rightarrow> nat list" where
  "waiting db a = filter (\<lambda>u. previous_id (item_at db u) = fi_id (item_at db a)) (fd_unlinked db)"

fun is_assert_exception :: "fc_error \<Rightarrow> bool" where
  "is_assert_exception (Assert_Exception _) = True"
| "is_assert_exception _ = False"

text \<open>
  \<open>_push_block\<close> and \<open>_push_next\<close> call each other.  They change the database also when they throw,
  so they return both.  The fuel counts the calls; \<open>None\<close> is running out of it.
\<close>

fun push_item :: "nat \<Rightarrow> (nat list \<Rightarrow> nat) \<Rightarrow> nat \<Rightarrow> fork_database \<Rightarrow> (fork_database \<times> unit result) option"
and push_next :: "nat \<Rightarrow> (nat list \<Rightarrow> nat) \<Rightarrow> nat \<Rightarrow> fork_database \<Rightarrow> (fork_database \<times> unit result) option" where
  "push_item 0 sel a db = None"
| "push_item (Suc n) sel a db =
    (case link_item a db of Inl e \<Rightarrow> Some (db, Inl e) | Inr db \<Rightarrow> push_next n sel a db)"
| "push_next 0 sel a db = None"
| "push_next (Suc n) sel a db =
    (if waiting db a = [] then Some (db, Inr ())
     else
       let tmp = pick sel (waiting db a);
           db = db\<lparr>fd_unlinked := filter (\<lambda>u. u \<noteq> tmp) (fd_unlinked db)\<rparr>
       in case push_item n sel tmp db of
           None \<Rightarrow> None
         | Some (db, Inl e) \<Rightarrow> if is_assert_exception e then push_next n sel a db else Some (db, Inl e)
         | Some (db, Inr _) \<Rightarrow> push_next n sel a db)"

definition fork_push_block :: "(nat list \<Rightarrow> nat) \<Rightarrow> proto_env \<Rightarrow> signed_block \<Rightarrow> fork_database
    \<Rightarrow> (fork_database \<times> nat option result) option" where
  "fork_push_block sel env b db =
    (let (a, db) = new_item env b db in
     case push_item (2 * length (fd_unlinked db) + 2) sel a db of
       None \<Rightarrow> None
     | Some (db, Inl Unlinkable_Block_Exception) \<Rightarrow>
         Some (db\<lparr>fd_unlinked := index_insert db a (fd_unlinked db)\<rparr>, Inl Unlinkable_Block_Exception)
     | Some (db, Inl e) \<Rightarrow> Some (db, Inl e)
     | Some (db, Inr _) \<Rightarrow> Some (db, Inr (fd_head db)))"

definition erase_old :: "fork_database \<Rightarrow> int \<Rightarrow> nat list \<Rightarrow> nat list" where
  "erase_old db bound idx = dropWhile (\<lambda>a. int (num_at db a) < bound) idx"

definition fork_set_max_size :: "32 word \<Rightarrow> fork_database \<Rightarrow> fork_database" where
  "fork_set_max_size s db =
    (let db = db\<lparr>fd_max_size := s\<rparr> in
     case fd_head db of None \<Rightarrow> db
     | Some h \<Rightarrow> db\<lparr>fd_index := erase_old db (oldest_num db h) (fd_index db),
                   fd_unlinked := erase_old db (oldest_num db h) (fd_unlinked db)\<rparr>)"

definition is_known_block :: "fork_database \<Rightarrow> block_id_type \<Rightarrow> bool" where
  "is_known_block db bid \<longleftrightarrow> find_id db (fd_index db) bid \<noteq> None \<or> find_id db (fd_unlinked db) bid \<noteq> None"

definition fork_fetch_block :: "fork_database \<Rightarrow> block_id_type \<Rightarrow> nat option" where
  "fork_fetch_block db bid =
    (case find_id db (fd_index db) bid of Some a \<Rightarrow> Some a | None \<Rightarrow> find_id db (fd_unlinked db) bid)"

definition fetch_block_by_number :: "fork_database \<Rightarrow> 32 word \<Rightarrow> nat list" where
  "fetch_block_by_number db n =
    takeWhile (\<lambda>a. num_at db a = unat n) (dropWhile (\<lambda>a. num_at db a < unat n) (fd_index db))"

definition fork_set_head :: "nat \<Rightarrow> fork_database \<Rightarrow> fork_database" where
  "fork_set_head a db = db\<lparr>fd_head := Some a\<rparr>"

definition fork_remove :: "block_id_type \<Rightarrow> fork_database \<Rightarrow> fork_database" where
  "fork_remove bid db = db\<lparr>fd_index := filter (\<lambda>a. fi_id (item_at db a) \<noteq> bid) (fd_index db)\<rparr>"

section \<open>Branches\<close>

text \<open>
  The three loops of \<open>fetch_branch_from\<close>.  The first two walk one branch down to the number of
  the other; the third walks both until they have the same predecessor.  A loop need not end
  on arbitrary links, so \<open>None\<close> is a loop that does not return.
\<close>

partial_function (option) walk_down :: "nat list \<Rightarrow> fork_database \<Rightarrow> 32 word \<Rightarrow> nat list \<Rightarrow> nat
    \<Rightarrow> (nat list \<times> nat) result option" where
  "walk_down pins db n acc a =
    (if block_num (fi_data (item_at db a)) > n then
       (case lock_prev pins db a of
          None \<Rightarrow> Some (Inl (Assert_Exception []))
        | Some p \<Rightarrow> walk_down pins db n (acc @ [a]) p)
     else Some (Inr (acc, a)))"

partial_function (option) walk_both :: "nat list \<Rightarrow> fork_database \<Rightarrow> nat list \<Rightarrow> nat list \<Rightarrow> nat \<Rightarrow> nat
    \<Rightarrow> (nat list \<times> nat list) result option" where
  "walk_both pins db acc1 acc2 a b =
    (if previous (fi_data (item_at db a)) \<noteq> previous (fi_data (item_at db b)) then
       (case lock_prev pins db a of
          None \<Rightarrow> Some (Inl (Assert_Exception []))
        | Some p \<Rightarrow> (case lock_prev pins db b of
            None \<Rightarrow> Some (Inl (Assert_Exception []))
          | Some q \<Rightarrow> walk_both pins db (acc1 @ [a]) (acc2 @ [b]) p q))
     else Some (Inr (acc1 @ [a], acc2 @ [b])))"

definition fetch_branch_from :: "nat list \<Rightarrow> fork_database \<Rightarrow> block_id_type \<Rightarrow> block_id_type
    \<Rightarrow> (nat list \<times> nat list) result option" where
  "fetch_branch_from pins db first second =
    (case find_id db (fd_index db) first of None \<Rightarrow> Some (Inl (Assert_Exception []))
     | Some a \<Rightarrow>
    (case find_id db (fd_index db) second of None \<Rightarrow> Some (Inl (Assert_Exception []))
     | Some b \<Rightarrow>
    (case walk_down pins db (block_num (fi_data (item_at db b))) [] a of None \<Rightarrow> None
     | Some (Inl e) \<Rightarrow> Some (Inl e)
     | Some (Inr (acc1, a)) \<Rightarrow>
    (case walk_down pins db (block_num (fi_data (item_at db a))) [] b of None \<Rightarrow> None
     | Some (Inl e) \<Rightarrow> Some (Inl e)
     | Some (Inr (acc2, b)) \<Rightarrow> walk_both pins db acc1 acc2 a b))))"

text \<open>\<open>walk_main_branch_to_num\<close> dereferences the head without a check, so it is applied to one.\<close>

partial_function (option) walk_to_num :: "nat list \<Rightarrow> fork_database \<Rightarrow> 32 word \<Rightarrow> nat \<Rightarrow> nat option option" where
  "walk_to_num pins db n a =
    (if fi_num (item_at db a) > n then
       (case lock_prev pins db a of None \<Rightarrow> Some None | Some p \<Rightarrow> walk_to_num pins db n p)
     else Some (Some a))"

definition walk_main_branch_to_num :: "nat list \<Rightarrow> fork_database \<Rightarrow> 32 word \<Rightarrow> nat \<Rightarrow> nat option option" where
  "walk_main_branch_to_num pins db n h =
    (if n > fi_num (item_at db h) then Some None else walk_to_num pins db n h)"

definition fetch_block_on_main_branch_by_number :: "nat list \<Rightarrow> fork_database \<Rightarrow> 32 word \<Rightarrow> nat option option" where
  "fetch_block_on_main_branch_by_number pins db n =
    (case fd_head db of None \<Rightarrow> Some None
     | Some h \<Rightarrow>
       if n > fi_num (item_at db h) then Some None
       else
         let blocks = fetch_block_by_number db n in
         if length blocks = 1 then Some (Some (blocks ! 0))
         else if length blocks = 0 then Some None
         else walk_main_branch_to_num pins db n h)"

section \<open>Reference definitions\<close>

text \<open>The shape of the fork database: items are what their blocks say, a link leads to the block
  that is named as the predecessor and has the number before, and the containers have unique
  identifiers in the order of the numbers.\<close>

definition items_ok :: "proto_env \<Rightarrow> fork_database \<Rightarrow> bool" where
  "items_ok env db \<longleftrightarrow> (\<forall>it\<in>set (fd_store db). fi_num it = block_num (fi_data it)
     \<and> fi_id it = block_id env (signed_block_header.truncate (fi_data it)))"

definition links_ok :: "fork_database \<Rightarrow> bool" where
  "links_ok db \<longleftrightarrow> (\<forall>a<length (fd_store db). \<forall>p. fi_prev (item_at db a) = Some p \<longrightarrow>
     p < length (fd_store db) \<and> previous_id (item_at db a) = fi_id (item_at db p)
     \<and> num_at db a = Suc (num_at db p))"

definition container_ok :: "fork_database \<Rightarrow> nat list \<Rightarrow> bool" where
  "container_ok db idx \<longleftrightarrow> set idx \<subseteq> {..<length (fd_store db)}
     \<and> distinct (map (\<lambda>a. fi_id (item_at db a)) idx) \<and> sorted (map (num_at db) idx)"

definition fork_ok :: "proto_env \<Rightarrow> fork_database \<Rightarrow> bool" where
  "fork_ok env db \<longleftrightarrow> items_ok env db \<and> links_ok db \<and> container_ok db (fd_index db)
     \<and> container_ok db (fd_unlinked db) \<and> (\<forall>h. fd_head db = Some h \<longrightarrow> h < length (fd_store db))"

text \<open>The containers and the shape only look at the unchanging part of an item.\<close>

definition same_items :: "fork_database \<Rightarrow> fork_database \<Rightarrow> bool" where
  "same_items db db' \<longleftrightarrow> length (fd_store db') = length (fd_store db)
    \<and> (\<forall>a. fi_id (item_at db' a) = fi_id (item_at db a) \<and> fi_num (item_at db' a) = fi_num (item_at db a)
         \<and> fi_data (item_at db' a) = fi_data (item_at db a))"

definition longest :: "fork_database \<Rightarrow> bool" where
  "longest db \<longleftrightarrow> (\<forall>a\<in>set (fd_index db). \<exists>h. fd_head db = Some h \<and> num_at db a \<le> num_at db h)"

text \<open>No cached block waits for a block that is in the index, except for those of \<open>X\<close>.\<close>

definition settled :: "block_id_type set \<Rightarrow> fork_database \<Rightarrow> bool" where
  "settled X db \<longleftrightarrow> (\<forall>u\<in>set (fd_unlinked db). \<forall>a\<in>set (fd_index db).
     previous_id (item_at db u) = fi_id (item_at db a) \<longrightarrow> fi_id (item_at db a) \<in> X)"

definition fork_grows :: "proto_env \<Rightarrow> fork_database \<Rightarrow> fork_database \<Rightarrow> bool" where
  "fork_grows env db db' \<longleftrightarrow> fork_ok env db' \<and> same_items db db' \<and> set (fd_unlinked db') \<subseteq> set (fd_unlinked db)
    \<and> length (fd_unlinked db') \<le> length (fd_unlinked db) \<and> set (fd_index db) \<subseteq> set (fd_index db')
    \<and> (longest db \<longrightarrow> longest db')
    \<and> (\<forall>h. fd_head db = Some h \<longrightarrow> (\<exists>h'. fd_head db' = Some h' \<and> (h' = h \<or> num_at db h < num_at db h')))"

inductive fork_reach :: "(nat list \<Rightarrow> nat) \<Rightarrow> proto_env \<Rightarrow> fork_database \<Rightarrow> bool" for sel env where
  fork_reach_init: "fork_reach sel env fork_database_init"
| fork_reach_start: "fork_reach sel env db \<Longrightarrow> fork_reach sel env (start_block env b db)"
| fork_reach_push: "fork_reach sel env db \<Longrightarrow> fork_push_block sel env b db = Some (db', r) \<Longrightarrow> fork_reach sel env db'"
| fork_reach_pop: "fork_reach sel env db \<Longrightarrow> fork_pop_block pins db = Inr db' \<Longrightarrow> fork_reach sel env db'"
| fork_reach_max_size: "fork_reach sel env db \<Longrightarrow> fork_reach sel env (fork_set_max_size s db)"
| fork_reach_head: "fork_reach sel env db \<Longrightarrow> a < length (fd_store db) \<Longrightarrow> fork_reach sel env (fork_set_head a db)"
| fork_reach_remove: "fork_reach sel env db \<Longrightarrow> fork_reach sel env (fork_remove bid db)"
| fork_reach_reset: "fork_reach sel env db \<Longrightarrow> fork_reach sel env (fork_reset db)"

text \<open>\<open>chain_of pins db xs\<close>: each address of the list but the last is linked to the next.\<close>

fun chain_of :: "nat list \<Rightarrow> fork_database \<Rightarrow> nat list \<Rightarrow> bool" where
  "chain_of pins db (a # b # xs) \<longleftrightarrow> lock_prev pins db a = Some b \<and> chain_of pins db (b # xs)"
| "chain_of pins db _ \<longleftrightarrow> True"

text \<open>A small fork database: a first block and the environment whose hash of a header is the
  name of its witness.\<close>

definition sample_env :: proto_env where
  "sample_env = \<lparr>json_is_valid = (\<lambda>_. True), hash_pow_input = (\<lambda>_. []), hash_digest = (\<lambda>d. d), sign_compact = (\<lambda>k d. k @ d),
     recover_key = (\<lambda>s d. Inr []), hash_signature = (\<lambda>s. s), hash_work = (\<lambda>d k. d), header_signee = (\<lambda>h. Inr []),
     sha224_header = (\<lambda>h. replicate 4 0 @ map (\<lambda>c. of_nat (of_char c)) (witness h)), sha256_base58 = (\<lambda>s. s)\<rparr>"

definition sample_block :: "block_id_type \<Rightarrow> string \<Rightarrow> signed_block" where
  "sample_block prev w = \<lparr>previous = prev, timestamp = 0, witness = w, transaction_merkle_root = [], header_extensions = [],
     witness_signature = [], transactions = []\<rparr>"

definition sample_first :: signed_block where
  "sample_first = sample_block (replicate 20 0) ''a''"

definition sample_db :: fork_database where
  "sample_db = start_block sample_env sample_first fork_database_init"

definition sample_second :: signed_block where
  "sample_second = sample_block (block_id sample_env (signed_block_header.truncate sample_first)) ''b''"

section \<open>The containers\<close>

lemma unat_succ_pos: "0 < unat (w + 1 :: 'a::len word) \<Longrightarrow> unat (w + 1) = Suc (unat w)"
  using unatSuc[of w] by (metis add.commute less_irrefl unat_0)

lemma set_insert_by_num [simp]: "set (insert_by_num f a xs) = insert a (set xs)"
  by (induction xs) auto

lemma distinct_insert_by_num:
  "distinct (map g (insert_by_num f a xs)) \<longleftrightarrow> g a \<notin> g ` set xs \<and> distinct (map g xs)"
  by (induction xs) auto

lemma sorted_insert_by_num: "sorted (map f xs) \<Longrightarrow> sorted (map f (insert_by_num f a xs))"
  by (induction xs) (auto simp: le_less_trans)

lemma find_id_None: "find_id db idx bid = None \<longleftrightarrow> bid \<notin> (\<lambda>a. fi_id (item_at db a)) ` set idx"
  by (auto simp: find_id_def find_None_iff)

lemma find_id_Some: "find_id db idx bid = Some a \<Longrightarrow> a \<in> set idx \<and> fi_id (item_at db a) = bid"
  by (auto simp: find_id_def find_Some_iff)

lemma index_insert_ok:
  assumes "container_ok db idx" "a < length (fd_store db)"
  shows "container_ok db (index_insert db a idx)"
  using assms
  by (auto simp: container_ok_def index_insert_def find_id_None distinct_insert_by_num sorted_insert_by_num)

lemma set_index_insert: "set idx \<subseteq> set (index_insert db a idx)" "set (index_insert db a idx) \<subseteq> insert a (set idx)"
  by (auto simp: index_insert_def)

lemma index_insert_id: "fi_id (item_at db a) \<in> (\<lambda>a. fi_id (item_at db a)) ` set (index_insert db a idx)"
  by (auto simp: index_insert_def find_id_None)

lemma container_ok_filter: "container_ok db idx \<Longrightarrow> container_ok db (filter P idx)"
  by (auto simp: container_ok_def distinct_map_filter sorted_filter)

lemma container_ok_drop: "container_ok db idx \<Longrightarrow> container_ok db (drop k idx)"
  by (auto simp: container_ok_def drop_map[symmetric] simp del: drop_map dest: in_set_dropD)

lemma container_ok_erase: "container_ok db idx \<Longrightarrow> container_ok db (erase_old db n idx)"
  by (simp add: erase_old_def dropWhile_eq_drop container_ok_drop)

lemma same_items_refl [simp]: "same_items db db"
  by (simp add: same_items_def)

lemma same_items_trans: "same_items a b \<Longrightarrow> same_items b c \<Longrightarrow> same_items a c"
  by (simp add: same_items_def)

lemma same_items_simps:
  assumes "same_items db db'"
  shows "length (fd_store db') = length (fd_store db)" "fi_id (item_at db' a) = fi_id (item_at db a)"
    "num_at db' a = num_at db a" "previous_id (item_at db' a) = previous_id (item_at db a)"
    "container_ok db' idx = container_ok db idx" "index_insert db' a idx = index_insert db a idx"
    "find_id db' idx bid = find_id db idx bid"
proof -
  have n: "num_at db' = num_at db" using assms by (auto simp: same_items_def num_at_def)
  show "length (fd_store db') = length (fd_store db)" "fi_id (item_at db' a) = fi_id (item_at db a)"
    "num_at db' a = num_at db a" "previous_id (item_at db' a) = previous_id (item_at db a)"
    using assms n by (auto simp: same_items_def previous_id_def)
  show f: "container_ok db' idx = container_ok db idx" "find_id db' idx bid = find_id db idx bid" for bid
    using assms n by (auto simp: container_ok_def find_id_def same_items_def)
  show "index_insert db' a idx = index_insert db a idx"
    using assms n f(2) by (simp add: index_insert_def same_items_def)
qed

lemma items_ok_same: "same_items db db' \<Longrightarrow> items_ok env db' = items_ok env db"
  by (simp add: items_ok_def same_items_def item_at_def all_set_conv_all_nth)

lemma item_num: "items_ok env db \<Longrightarrow> a < length (fd_store db) \<Longrightarrow> num_at db a = unat (num_from_id (fi_id (item_at db a)))
    \<and> fi_num (item_at db a) = block_num (fi_data (item_at db a))"
  using block_id_carries_number[of env "signed_block_header.truncate (fi_data (item_at db a))"]
  by (auto simp: items_ok_def item_at_def num_at_def block_num_def signed_block_header.truncate_def)

lemma item_num_previous: "items_ok env db \<Longrightarrow> a < length (fd_store db) \<Longrightarrow>
    num_at db a = unat (num_from_id (previous_id (item_at db a)) + 1)"
  using item_num[of env db a] by (simp add: num_at_def block_num_def previous_id_def)

section \<open>Linking an item\<close>

lemma num_at_update [simp]: "num_at (db\<lparr>fd_index := i\<rparr>) = num_at db" "num_at (db\<lparr>fd_head := h\<rparr>) = num_at db"
    "num_at (db\<lparr>fd_unlinked := i\<rparr>) = num_at db" "num_at (db\<lparr>fd_max_size := s\<rparr>) = num_at db"
  by (auto simp: num_at_def item_at_def)

lemma item_at_update [simp]: "item_at (db\<lparr>fd_index := i\<rparr>) = item_at db" "item_at (db\<lparr>fd_head := h\<rparr>) = item_at db"
    "item_at (db\<lparr>fd_unlinked := i\<rparr>) = item_at db" "item_at (db\<lparr>fd_max_size := s\<rparr>) = item_at db"
  by (auto simp: item_at_def)

lemma link_prev_same:
  assumes "link_prev a db = Inr db'"
  shows "same_items db db' \<and> fd_unlinked db' = fd_unlinked db \<and> fd_max_size db' = fd_max_size db
    \<and> fd_index db' = fd_index db \<and> fd_head db' = fd_head db"
proof (cases "db' = db")
  case False
  then obtain p where "db' = db\<lparr>fd_store := (fd_store db)[a := item_at db a\<lparr>fi_prev := Some p\<rparr>]\<rparr>"
    using assms by (auto simp: link_prev_def Let_def split: option.splits if_splits)
  then show ?thesis by (cases "a < length (fd_store db)") (auto simp: same_items_def item_at_def nth_list_update list_update_beyond)
qed simp

lemma link_prev_prev:
  assumes "link_prev a db = Inr db'"
  shows "fi_prev (item_at db' x) = fi_prev (item_at db x) \<or>
      x = a \<and> fd_head db \<noteq> None \<and> (\<exists>p\<in>set (fd_index db). fi_prev (item_at db' x) = Some p
        \<and> fi_id (item_at db p) = previous_id (item_at db a))"
proof (cases "db' = db")
  case False
  then obtain p where p: "db' = db\<lparr>fd_store := (fd_store db)[a := item_at db a\<lparr>fi_prev := Some p\<rparr>]\<rparr>"
    "find_id db (fd_index db) (previous_id (item_at db a)) = Some p" "fd_head db \<noteq> None"
    using assms by (auto simp: link_prev_def Let_def split: option.splits if_splits)
  then show ?thesis using find_id_Some[OF p(2)]
    by (cases "a < length (fd_store db)") (auto simp: item_at_def nth_list_update list_update_beyond)
qed simp

lemma link_item_same:
  assumes "link_item a db = Inr db'"
  shows "same_items db db'" "fd_unlinked db' = fd_unlinked db" "fd_max_size db' = fd_max_size db"
    "fd_index db' = index_insert db a (fd_index db)"
    "fd_head db' = (case fd_head db of None \<Rightarrow> Some a | Some h \<Rightarrow> if num_at db a > num_at db h then Some a else Some h)"
proof -
  obtain db1 where 1: "link_prev a db = Inr db1" "db' = insert_item a db1"
    using assms by (auto simp: link_item_def res_bind_Inr)
  note s = link_prev_same[OF 1(1)]
  note t = same_items_simps[of db db1]
  show "same_items db db'" "fd_unlinked db' = fd_unlinked db" "fd_max_size db' = fd_max_size db"
    using s by (auto simp: 1(2) insert_item_def same_items_def)
  show "fd_index db' = index_insert db a (fd_index db)"
    "fd_head db' = (case fd_head db of None \<Rightarrow> Some a | Some h \<Rightarrow> if num_at db a > num_at db h then Some a else Some h)"
    using s t by (simp_all add: 1(2) insert_item_def cong: option.case_cong)
qed

lemma link_item_links:
  assumes "link_item a db = Inr db'" "fork_ok env db" "a < length (fd_store db)"
  shows "links_ok db'"
proof -
  obtain db1 where 1: "link_prev a db = Inr db1" "db' = insert_item a db1"
    using assms by (auto simp: link_item_def res_bind_Inr)
  have same: "same_items db db'" by (rule link_item_same[OF assms(1)])
  have prev: "fi_prev (item_at db' x) = fi_prev (item_at db1 x)" for x by (simp add: 1(2) insert_item_def)
  have age: "0 < num_at db a" if "fd_head db \<noteq> None"
    using that assms(1) by (auto simp: link_item_def res_bind_Inr check_age_def oldest_num_def split: if_splits)
  have new: "p < length (fd_store db) \<and> num_at db a = Suc (num_at db p)"
    if p: "p \<in> set (fd_index db)" "fi_id (item_at db p) = previous_id (item_at db a)" "fd_head db \<noteq> None" for p
  proof -
    have l: "p < length (fd_store db)" using p(1) assms(2) by (auto simp: fork_ok_def container_ok_def)
    have i: "items_ok env db" using assms(2) by (simp add: fork_ok_def)
    have "num_at db p = unat (num_from_id (previous_id (item_at db a)))" using item_num[OF i l] p(2) by simp
    moreover have "num_at db a = unat (num_from_id (previous_id (item_at db a)) + 1)" by (rule item_num_previous[OF i assms(3)])
    ultimately show ?thesis using age[OF p(3)] l unat_succ_pos by simp
  qed
  show ?thesis unfolding links_ok_def same_items_simps[OF same] prev
  proof (intro allI impI)
    fix x p assume x: "x < length (fd_store db)" "fi_prev (item_at db1 x) = Some p"
    consider "fi_prev (item_at db x) = Some p"
      | "x = a" "p \<in> set (fd_index db)" "fi_id (item_at db p) = previous_id (item_at db a)" "fd_head db \<noteq> None"
      using link_prev_prev[OF 1(1), of x] x(2) by auto
    then show "p < length (fd_store db) \<and> previous_id (item_at db x) = fi_id (item_at db p) \<and> num_at db x = Suc (num_at db p)"
    proof cases
      case 1
      then show ?thesis using x(1) assms(2) by (auto simp: fork_ok_def links_ok_def)
    next
      case 2
      then show ?thesis using new by simp
    qed
  qed
qed

lemma link_item_ok:
  assumes "link_item a db = Inr db'" "fork_ok env db" "a < length (fd_store db)"
  shows "fork_ok env db'"
proof -
  note s = link_item_same[OF assms(1)] and t = same_items_simps[OF link_item_same(1)[OF assms(1)]]
  show ?thesis
    using assms(2,3) link_item_links[OF assms] index_insert_ok[of db "fd_index db" a] items_ok_same[OF s(1), of env]
    unfolding fork_ok_def s(2,4,5) t by (auto split: option.splits if_splits)
qed

lemma fork_grows_refl: "fork_ok env db \<Longrightarrow> fork_grows env db db"
  by (simp add: fork_grows_def)

lemma fork_grows_trans:
  assumes "fork_grows env a b" "fork_grows env b c"
  shows "fork_grows env a c"
proof -
  have n: "num_at b = num_at a" using assms(1) same_items_simps(3) by (auto simp: fork_grows_def)
  have "same_items a c" using assms same_items_trans by (auto simp: fork_grows_def)
  moreover have "\<exists>h'. fd_head c = Some h' \<and> (h' = h \<or> num_at a h < num_at a h')" if "fd_head a = Some h" for h
    using assms that unfolding fork_grows_def n by (metis order.strict_trans)
  ultimately show ?thesis using assms unfolding fork_grows_def by (meson le_trans subset_trans)
qed

lemma erase_unlinked_grows:
  "fork_ok env db \<Longrightarrow> fork_grows env db (db\<lparr>fd_unlinked := filter P (fd_unlinked db)\<rparr>)"
  by (auto simp: fork_grows_def fork_ok_def items_ok_def links_ok_def longest_def same_items_def container_ok_def
    distinct_map_filter sorted_filter)

lemma link_item_grows:
  assumes "link_item a db = Inr db'" "fork_ok env db" "a < length (fd_store db)"
  shows "fork_grows env db db'"
proof -
  note s = link_item_same[OF assms(1)] and t = same_items_simps[OF link_item_same(1)[OF assms(1)]]
  have "longest db'" if "longest db"
    unfolding longest_def t
  proof
    fix x assume "x \<in> set (fd_index db')"
    then have "x = a \<or> x \<in> set (fd_index db)" using set_index_insert(2)[of db a "fd_index db"] by (auto simp: s(4))
    then show "\<exists>h. fd_head db' = Some h \<and> num_at db x \<le> num_at db h"
      using that unfolding longest_def s(5) by (fastforce split: option.splits)
  qed
  then show ?thesis
    using s link_item_ok[OF assms] set_index_insert(1)[of "fd_index db" db a]
    by (auto simp: fork_grows_def t split: option.splits)
qed

lemma pick_in: "xs \<noteq> [] \<Longrightarrow> pick sel xs \<in> set xs"
  by (simp add: pick_def)

lemma pick_waiting:
  assumes "waiting db a \<noteq> []"
  shows "pick sel (waiting db a) \<in> set (fd_unlinked db)"
    "previous_id (item_at db (pick sel (waiting db a))) = fi_id (item_at db a)"
  using pick_in[OF assms, of sel] by (auto simp: waiting_def)

section \<open>Pushing\<close>

text \<open>The fuel is enough: every nested call takes an item out of the cache.\<close>

lemma push_returns:
  "2 * length (fd_unlinked db) + 2 \<le> n \<Longrightarrow>
     \<exists>db' r. push_item n sel a db = Some (db', r) \<and> length (fd_unlinked db') \<le> length (fd_unlinked db)"
  "2 * length (fd_unlinked db) + 1 \<le> n \<Longrightarrow>
     \<exists>db' r. push_next n sel a db = Some (db', r) \<and> length (fd_unlinked db') \<le> length (fd_unlinked db)"
proof (induction n sel a db and n sel a db rule: push_item_push_next.induct)
  case (2 n sel a db)
  show ?case
  proof (cases "link_item a db")
    case (Inr db1)
    then show ?thesis using 2(1)[OF Inr] 2(2) link_item_same(2)[OF Inr] by simp
  qed simp
next
  case (4 n sel a db)
  show ?case
  proof (cases "waiting db a = []")
    case False
    define tmp where "tmp = pick sel (waiting db a)"
    define db1 where "db1 = db\<lparr>fd_unlinked := filter (\<lambda>u. u \<noteq> tmp) (fd_unlinked db)\<rparr>"
    have len: "length (fd_unlinked db1) < length (fd_unlinked db)"
      using pick_waiting(1)[OF False, of sel] unfolding db1_def tmp_def
      by (simp add: length_filter_less)
    then obtain db2 r where r: "push_item n sel tmp db1 = Some (db2, r)" "length (fd_unlinked db2) \<le> length (fd_unlinked db1)"
      using 4(1)[OF False tmp_def db1_def] 4(4) by force
    have n: "2 * length (fd_unlinked db2) + 1 \<le> n" using len r(2) 4(4) by linarith
    show ?thesis
    proof (cases r)
      case (Inl e)
      show ?thesis
        using 4(2)[OF False tmp_def db1_def r(1) refl Inl] n len r Inl False
        by (auto simp: Let_def tmp_def[symmetric] db1_def[symmetric])
    next
      case (Inr u)
      show ?thesis
        using 4(3)[OF False tmp_def db1_def r(1) refl Inr] n len r Inr False
        by (auto simp: Let_def tmp_def[symmetric] db1_def[symmetric])
    qed
  qed simp
qed simp_all

lemma push_next_Suc [consumes 1, case_names stop step fail]:
  assumes "push_next (Suc n) sel a db = Some (db', r)"
  obtains (stop) "waiting db a = []" "db' = db" "r = Inr ()"
  | (step) tmp db1 db2 r2 where "tmp \<in> set (fd_unlinked db)" "previous_id (item_at db tmp) = fi_id (item_at db a)"
      "db1 = db\<lparr>fd_unlinked := filter (\<lambda>u. u \<noteq> tmp) (fd_unlinked db)\<rparr>" "push_item n sel tmp db1 = Some (db2, r2)"
      "\<forall>e. r2 = Inl e \<longrightarrow> is_assert_exception e" "push_next n sel a db2 = Some (db', r)"
  | (fail) tmp db1 e where "tmp \<in> set (fd_unlinked db)" "previous_id (item_at db tmp) = fi_id (item_at db a)"
      "db1 = db\<lparr>fd_unlinked := filter (\<lambda>u. u \<noteq> tmp) (fd_unlinked db)\<rparr>" "push_item n sel tmp db1 = Some (db', Inl e)"
      "\<not> is_assert_exception e" "r = Inl e"
proof (cases "waiting db a = []")
  case True
  show thesis by (rule that(1)) (use assms True in auto)
next
  case False
  define tmp where "tmp = pick sel (waiting db a)"
  define db1 where "db1 = db\<lparr>fd_unlinked := filter (\<lambda>u. u \<noteq> tmp) (fd_unlinked db)\<rparr>"
  note w = pick_waiting[OF False, of sel, folded tmp_def]
  have eq: "(case push_item n sel tmp db1 of None \<Rightarrow> None
      | Some (db, Inl e) \<Rightarrow> if is_assert_exception e then push_next n sel a db else Some (db, Inl e)
      | Some (db, Inr _) \<Rightarrow> push_next n sel a db) = Some (db', r)"
    using assms False by (simp add: Let_def tmp_def[symmetric] db1_def[symmetric])
  then obtain db2 r2 where r2: "push_item n sel tmp db1 = Some (db2, r2)" by (cases "push_item n sel tmp db1") auto
  show thesis
  proof (cases "\<exists>e. r2 = Inl e \<and> \<not> is_assert_exception e")
    case True
    then show thesis using that(3)[OF w db1_def] eq r2 by auto
  next
    case False
    then have "push_next n sel a db2 = Some (db', r)" using eq r2 by (cases r2) auto
    then show thesis using that(2)[OF w db1_def r2] False by blast
  qed
qed

lemma settled_mono: "settled X db \<Longrightarrow> X \<subseteq> Y \<Longrightarrow> settled Y db"
  by (fastforce simp: settled_def)

lemma settled_erase: "settled X db \<Longrightarrow> settled X (db\<lparr>fd_unlinked := filter P (fd_unlinked db)\<rparr>)"
  by (auto simp: settled_def)

lemma settled_link:
  assumes "link_item a db = Inr db'" "settled X db"
  shows "settled (insert (fi_id (item_at db a)) X) db'"
proof -
  note s = link_item_same[OF assms(1)] and t = same_items_simps[OF link_item_same(1)[OF assms(1)]]
  show ?thesis
    using assms(2) set_index_insert(2)[of db a "fd_index db"] unfolding settled_def t s(2,4) by blast
qed

lemma settled_done: "waiting db a = [] \<Longrightarrow> settled (insert (fi_id (item_at db a)) X) db \<Longrightarrow> settled X db"
  by (simp add: settled_def waiting_def filter_empty_conv) metis

lemma link_item_unlinkable:
  "link_item a db = Inl Unlinkable_Block_Exception \<Longrightarrow> previous_id (item_at db a) \<notin> (\<lambda>x. fi_id (item_at db x)) ` set (fd_index db)"
  by (auto simp: link_item_def link_prev_def check_age_def res_bind_Inl Let_def find_id_None
    split: option.splits if_splits)

text \<open>What a call does to the database: it only grows, whatever it was waiting for is linked
  unless a block turns out to be too old, and a nested block never fails to link.\<close>

lemma push_sound:
  "push_item n sel a db = Some (db', r) \<Longrightarrow> fork_ok env db \<Longrightarrow> a < length (fd_store db) \<Longrightarrow>
     fork_grows env db db' \<and> ((\<forall>e. r = Inl e \<longrightarrow> is_assert_exception e) \<longrightarrow> settled X db \<longrightarrow> settled X db')
     \<and> (r = Inl Unlinkable_Block_Exception \<longrightarrow> db' = db
          \<and> previous_id (item_at db a) \<notin> (\<lambda>x. fi_id (item_at db x)) ` set (fd_index db))"
  "push_next n sel a db = Some (db', r) \<Longrightarrow> fork_ok env db \<Longrightarrow> a < length (fd_store db) \<Longrightarrow>
     fi_id (item_at db a) \<in> (\<lambda>x. fi_id (item_at db x)) ` set (fd_index db) \<Longrightarrow>
     fork_grows env db db' \<and> (r = Inr () \<longrightarrow> settled (insert (fi_id (item_at db a)) X) db \<longrightarrow> settled X db')
     \<and> (\<forall>e. r = Inl e \<longrightarrow> \<not> is_assert_exception e \<and> e \<noteq> Unlinkable_Block_Exception)"
proof (induction n arbitrary: a db db' r X)
  case 0
  { case 1 then show ?case by simp next case 2 then show ?case by simp }
next
  case (Suc n)
  {
    case 1
    show ?case
    proof (cases "link_item a db")
      case (Inl e)
      then show ?thesis using 1 link_item_unlinkable[of a db] by (auto simp: fork_grows_refl)
    next
      case (Inr db1)
      have g: "fork_grows env db db1" by (rule link_item_grows[OF Inr 1(2,3)])
      note t = same_items_simps[OF link_item_same(1)[OF Inr]]
      have p: "push_next n sel a db1 = Some (db', r)" using 1(1) Inr by simp
      have i: "fi_id (item_at db1 a) \<in> (\<lambda>x. fi_id (item_at db1 x)) ` set (fd_index db1)"
        using index_insert_id[of db a "fd_index db"] unfolding t link_item_same(4)[OF Inr] .
      have "fork_ok env db1" "a < length (fd_store db1)" using g 1(3) by (auto simp: fork_grows_def t)
      note s = Suc.IH(2)[OF p this i, where X = X]
      then show ?thesis using fork_grows_trans[OF g] settled_link[OF Inr, of X] t(2)[of a]
        by (cases r) auto
    qed
  next
    case 2
    from 2(1) show ?case
    proof (cases rule: push_next_Suc)
      case stop
      then show ?thesis using settled_done 2(2) fork_grows_refl by auto
    next
      case (step tmp db1 db2 r2)
      have g: "fork_grows env db db1" unfolding step(3) by (rule erase_unlinked_grows[OF 2(2)])
      have tmp: "fork_ok env db1" "tmp < length (fd_store db1)"
        using g 2(2) step(1) by (auto simp: fork_grows_def same_items_def fork_ok_def container_ok_def)
      note s = Suc.IH(1)[OF step(4) tmp]
      have g2: "fork_grows env db db2" by (rule fork_grows_trans[OF g conjunct1[OF s]])
      then have same: "same_items db db2" and i2: "set (fd_index db) \<subseteq> set (fd_index db2)" "fork_ok env db2"
        by (auto simp: fork_grows_def)
      note t = same_items_simps[OF same]
      have "a < length (fd_store db2)" "fi_id (item_at db2 a) \<in> (\<lambda>x. fi_id (item_at db2 x)) ` set (fd_index db2)"
        using 2(3,4) i2 unfolding t by auto
      note u = Suc.IH(2)[OF step(6) i2(2) this, where X = X]
      have "settled (insert (fi_id (item_at db a)) X) db \<Longrightarrow> settled (insert (fi_id (item_at db2 a)) X) db2"
        using s[where X = "insert (fi_id (item_at db a)) X"] step(5) settled_erase unfolding t step(3) by blast
      then show ?thesis using u fork_grows_trans[OF g2] by blast
    next
      case (fail tmp db1 e)
      have g: "fork_grows env db db1" unfolding fail(3) by (rule erase_unlinked_grows[OF 2(2)])
      have tmp: "fork_ok env db1" "tmp < length (fd_store db1)"
        using g 2(2) fail(1) by (auto simp: fork_grows_def same_items_def fork_ok_def container_ok_def)
      note s = Suc.IH(1)[OF fail(4) tmp, where X = X]
      have "e \<noteq> Unlinkable_Block_Exception" using s 2(4) fail(2,3) by auto
      then show ?thesis using s fork_grows_trans[OF g] fail(5,6) by blast
    qed
  }
qed

section \<open>The operations keep the shape\<close>

lemma item_at_new [simp]:
  "a < length (fd_store db) \<Longrightarrow> item_at (db\<lparr>fd_store := fd_store db @ [it]\<rparr>) a = item_at db a"
  "item_at (db\<lparr>fd_store := fd_store db @ [it]\<rparr>) (length (fd_store db)) = it"
  by (simp_all add: item_at_def nth_append)

lemma num_at_new [simp]:
  "a < length (fd_store db) \<Longrightarrow> num_at (db\<lparr>fd_store := fd_store db @ [it]\<rparr>) a = num_at db a"
  by (simp add: num_at_def)

lemma container_ok_new: "container_ok db idx \<Longrightarrow> container_ok (db\<lparr>fd_store := fd_store db @ [it]\<rparr>) idx"
proof -
  assume c: "container_ok db idx"
  let ?db = "db\<lparr>fd_store := fd_store db @ [it]\<rparr>"
  have e: "map (\<lambda>a. fi_id (item_at ?db a)) idx = map (\<lambda>a. fi_id (item_at db a)) idx" "map (num_at ?db) idx = map (num_at db) idx"
    using c by (auto simp: container_ok_def)
  show ?thesis using c unfolding container_ok_def e by (auto simp: less_Suc_eq)
qed

lemma new_item_ok:
  assumes "fork_ok env db" "new_item env b db = (a, db1)"
  shows "fork_ok env db1" "a < length (fd_store db1)" "length (fd_store db) \<le> length (fd_store db1)"
    "fd_index db1 = fd_index db" "fd_unlinked db1 = fd_unlinked db" "fd_head db1 = fd_head db"
    "longest db1 = longest db" "settled X db1 = settled X db"
    "fd_head db = Some h \<Longrightarrow> num_at db1 h = num_at db h"
proof -
  have db1: "db1 = db\<lparr>fd_store := fd_store db @ [mk_fork_item env b]\<rparr>" "a = length (fd_store db)"
    using assms(2) by (simp_all add: new_item_def)
  have lt: "x < length (fd_store db)" if "x \<in> set (fd_index db) \<or> x \<in> set (fd_unlinked db) \<or> fd_head db = Some x" for x
    using that assms(1) by (auto simp: fork_ok_def container_ok_def)
  show "a < length (fd_store db1)" "length (fd_store db) \<le> length (fd_store db1)" "fd_index db1 = fd_index db"
    "fd_unlinked db1 = fd_unlinked db" "fd_head db1 = fd_head db" by (simp_all add: db1)
  show "fd_head db = Some h \<Longrightarrow> num_at db1 h = num_at db h" using lt by (simp add: db1)
  show "longest db1 = longest db" "settled X db1 = settled X db"
    using lt by (auto simp: longest_def settled_def db1)
  have "items_ok env db1" using assms(1) by (simp add: fork_ok_def items_ok_def db1 mk_fork_item_def)
  moreover have "links_ok db1"
    using assms(1) by (auto simp: fork_ok_def links_ok_def db1 less_Suc_eq mk_fork_item_def)
  ultimately show "fork_ok env db1"
    using assms(1) by (auto simp: fork_ok_def container_ok_new db1 less_Suc_eq)
qed

lemma fork_ok_update [simp]:
  "fork_ok env (db\<lparr>fd_max_size := s\<rparr>) = fork_ok env db"
  by (simp add: fork_ok_def items_ok_def links_ok_def container_ok_def)

lemma fork_ok_index:
  "fork_ok env db \<Longrightarrow> container_ok db idx \<Longrightarrow> fork_ok env (db\<lparr>fd_index := idx\<rparr>)"
  "fork_ok env db \<Longrightarrow> container_ok db idx \<Longrightarrow> fork_ok env (db\<lparr>fd_unlinked := idx\<rparr>)"
  "fork_ok env db \<Longrightarrow> a < length (fd_store db) \<Longrightarrow> fork_ok env (db\<lparr>fd_head := Some a\<rparr>)"
  by (auto simp: fork_ok_def items_ok_def links_ok_def container_ok_def)

lemma container_ok_Nil [simp]: "container_ok db []"
  by (simp add: container_ok_def)

lemma fork_ok_containers: "fork_ok env db \<Longrightarrow> container_ok db (fd_index db)" "fork_ok env db \<Longrightarrow> container_ok db (fd_unlinked db)"
  by (simp_all add: fork_ok_def)

lemma fork_init_ok: "fork_ok env fork_database_init"
  by (simp add: fork_ok_def fork_database_init_def items_ok_def links_ok_def)

lemma start_block_ok:
  assumes "fork_ok env db"
  shows "fork_ok env (start_block env b db)"
proof -
  obtain a db1 where n: "new_item env b db = (a, db1)" by fastforce
  note o = new_item_ok[OF assms n]
  have "fork_ok env (db1\<lparr>fd_index := index_insert db1 a (fd_index db1)\<rparr>)"
    using o fork_ok_index(1) index_insert_ok fork_ok_containers by blast
  then show ?thesis using o(2) fork_ok_index(3) by (auto simp: start_block_def n)
qed

lemma pop_block_ok:
  assumes "fork_ok env db" "fork_pop_block pins db = Inr db'"
  shows "fork_ok env db'"
proof -
  obtain h p where hp: "fd_head db = Some h" "lock_prev pins db h = Some p" "db' = db\<lparr>fd_head := Some p\<rparr>"
    using assms(2) by (auto simp: fork_pop_block_def split: option.splits)
  then have "h < length (fd_store db)" "fi_prev (item_at db h) = Some p"
    using assms(1) by (auto simp: fork_ok_def lock_prev_def split: option.splits if_splits)
  then show ?thesis using assms(1) hp(3) fork_ok_index(3) by (auto simp: fork_ok_def links_ok_def)
qed

lemma set_max_size_ok: "fork_ok env db \<Longrightarrow> fork_ok env (fork_set_max_size s db)"
proof -
  assume ok: "fork_ok env db"
  show ?thesis
  proof (cases "fd_head db")
    case (Some h)
    let ?db = "db\<lparr>fd_max_size := s\<rparr>"
    have ok1: "fork_ok env ?db" using ok by simp
    let ?i = "erase_old ?db (oldest_num ?db h) (fd_index db)" and ?u = "erase_old ?db (oldest_num ?db h) (fd_unlinked db)"
    have "container_ok ?db ?i" "container_ok ?db ?u"
      using fork_ok_containers[OF ok1] container_ok_erase[of ?db] by simp_all
    then have "fork_ok env (?db\<lparr>fd_index := ?i\<rparr>)" "container_ok (?db\<lparr>fd_index := ?i\<rparr>) ?u"
      using fork_ok_index(1)[OF ok1] by (auto simp: container_ok_def)
    then show ?thesis using fork_ok_index(2) Some by (simp add: fork_set_max_size_def Let_def)
  qed (simp add: fork_set_max_size_def ok)
qed

lemma fork_remove_ok: "fork_ok env db \<Longrightarrow> fork_ok env (fork_remove bid db)"
  by (simp add: fork_remove_def fork_ok_index container_ok_filter fork_ok_containers)

lemma fork_reset_ok: "fork_ok env db \<Longrightarrow> fork_ok env (fork_reset db)"
  by (simp add: fork_reset_def fork_ok_def items_ok_def links_ok_def container_ok_def)

lemma link_item_errors:
  "link_item a db = Inl e \<Longrightarrow> e = Block_Too_Old_Exception \<or> e = Unlinkable_Block_Exception \<or> is_assert_exception e"
  by (auto simp: link_item_def check_age_def link_prev_def res_bind_Inl Let_def split: option.splits if_splits)

lemma push_errors:
  "push_item n sel a db = Some (db', Inl e) \<Longrightarrow> e = Block_Too_Old_Exception \<or> e = Unlinkable_Block_Exception \<or> is_assert_exception e"
  "push_next n sel a db = Some (db', Inl e) \<Longrightarrow> e = Block_Too_Old_Exception \<or> e = Unlinkable_Block_Exception \<or> is_assert_exception e"
proof (induction n arbitrary: a db db' e)
  case (Suc n)
  {
    case 1
    then show ?case using Suc.IH(2) link_item_errors by (cases "link_item a db") auto
  next
    case 2
    then show ?case using Suc.IH by (cases rule: push_next_Suc) auto
  }
qed simp_all

text \<open>A push returns, keeps the shape, the longest head and the settled cache, and never replaces
  the head but by a longer one.\<close>

lemma push_block_cases:
  assumes "fork_ok env db" "new_item env b db = (a, db1)"
  obtains db2 r where "push_item (2 * length (fd_unlinked db1) + 2) sel a db1 = Some (db2, r)" "fork_grows env db1 db2"
    "fork_push_block sel env b db =
      (if r = Inl Unlinkable_Block_Exception
       then Some (db2\<lparr>fd_unlinked := index_insert db2 a (fd_unlinked db2)\<rparr>, Inl Unlinkable_Block_Exception)
       else Some (db2, case r of Inl e \<Rightarrow> Inl e | Inr _ \<Rightarrow> Inr (fd_head db2)))"
proof -
  obtain db2 r where r: "push_item (2 * length (fd_unlinked db1) + 2) sel a db1 = Some (db2, r)"
    using push_returns(1)[of db1 "2 * length (fd_unlinked db1) + 2" sel a] by auto
  note o = new_item_ok(1,2)[OF assms]
  show thesis
  proof (rule that[OF r])
    show "fork_grows env db1 db2" using push_sound(1)[OF r o] by blast
    show "fork_push_block sel env b db =
      (if r = Inl Unlinkable_Block_Exception
       then Some (db2\<lparr>fd_unlinked := index_insert db2 a (fd_unlinked db2)\<rparr>, Inl Unlinkable_Block_Exception)
       else Some (db2, case r of Inl e \<Rightarrow> Inl e | Inr _ \<Rightarrow> Inr (fd_head db2)))"
    proof (cases r)
      case (Inl e)
      then show ?thesis using r by (cases e) (simp_all add: fork_push_block_def assms(2))
    next
      case (Inr u)
      then show ?thesis using r by (simp add: fork_push_block_def assms(2))
    qed
  qed
qed

lemma push_block_ok:
  assumes "fork_ok env db" "fork_push_block sel env b db = Some (db', q)"
  shows "fork_ok env db'" "longest db \<Longrightarrow> longest db'"
    "fd_head db = Some h \<Longrightarrow> \<exists>h'. fd_head db' = Some h' \<and> (h' = h \<or> num_at db' h < num_at db' h')"
    "q = Inr x \<Longrightarrow> x = fd_head db'"
    "q \<noteq> Inl Block_Too_Old_Exception \<Longrightarrow> settled {} db \<Longrightarrow> settled {} db'"
proof -
  obtain a db1 where n: "new_item env b db = (a, db1)" by fastforce
  note o = new_item_ok[OF assms(1) n]
  obtain db2 r where r: "push_item (2 * length (fd_unlinked db1) + 2) sel a db1 = Some (db2, r)" "fork_grows env db1 db2"
    "fork_push_block sel env b db =
      (if r = Inl Unlinkable_Block_Exception
       then Some (db2\<lparr>fd_unlinked := index_insert db2 a (fd_unlinked db2)\<rparr>, Inl Unlinkable_Block_Exception)
       else Some (db2, case r of Inl e \<Rightarrow> Inl e | Inr _ \<Rightarrow> Inr (fd_head db2)))"
    by (rule push_block_cases[OF assms(1) n, of sel])
  note t = same_items_simps[of db1 db2]
  note g = r(2)[unfolded fork_grows_def]
  have ok2: "fork_ok env db2" using g by blast
  have l: "a < length (fd_store db2)" using g o(2) t by auto
  have db': "db' = (if r = Inl Unlinkable_Block_Exception then db2\<lparr>fd_unlinked := index_insert db2 a (fd_unlinked db2)\<rparr> else db2)"
    using r(3) assms(2) by (auto split: if_splits)
  show "fork_ok env db'"
    unfolding db' using ok2 fork_ok_index(2)[OF ok2 index_insert_ok[OF fork_ok_containers(2)[OF ok2] l]] by simp
  show "longest db \<Longrightarrow> longest db'" using g o(7) unfolding db' by (auto simp: longest_def)
  show "fd_head db = Some h \<Longrightarrow> \<exists>h'. fd_head db' = Some h' \<and> (h' = h \<or> num_at db' h < num_at db' h')"
    using g o(6) t(3) unfolding db' by (auto split: if_splits)
  show "q = Inr x \<Longrightarrow> x = fd_head db'" using r(3) assms(2) unfolding db' by (auto split: if_splits sum.splits)
  assume q: "q \<noteq> Inl Block_Too_Old_Exception" "settled {} db"
  note s = push_sound(1)[OF r(1) o(1,2), where X = "{}"]
  show "settled {} db'"
  proof (cases "r = Inl Unlinkable_Block_Exception")
    case True
    then have "db2 = db1" "previous_id (item_at db1 a) \<notin> (\<lambda>x. fi_id (item_at db1 x)) ` set (fd_index db1)" using s by auto
    then show ?thesis using o(8)[of "{}"] q(2) set_index_insert(2)[of db1 a "fd_unlinked db1"] True
      unfolding db' settled_def by (auto split: if_splits)
  next
    case False
    have "is_assert_exception e" if e: "r = Inl e" for e
    proof -
      have "q = Inl e" using False r(3) assms(2) e by simp
      then show ?thesis using push_errors(1)[OF r(1)[unfolded e]] q(1) False e by blast
    qed
    then show ?thesis using s o(8)[of "{}"] q(2) False unfolding db' by simp
  qed
qed

lemma fork_reach_ok: "fork_reach sel env db \<Longrightarrow> fork_ok env db"
proof (induction rule: fork_reach.induct)
  case (fork_reach_push db b db' r)
  then show ?case using push_block_ok(1) by blast
next
  case (fork_reach_pop db pins db')
  then show ?case using pop_block_ok by blast
next
  case (fork_reach_head db a)
  then show ?case using fork_ok_index(3) by (simp add: fork_set_head_def)
qed (simp_all add: fork_init_ok start_block_ok set_max_size_ok fork_remove_ok fork_reset_ok)

section \<open>Branches\<close>

lemma chain_of_snoc: "chain_of pins db (xs @ [a]) \<Longrightarrow> lock_prev pins db a = Some b \<Longrightarrow> chain_of pins db (xs @ [a, b])"
  by (induction xs rule: induct_list012) auto

lemma chain_of_append: "chain_of pins db (xs @ [a]) \<Longrightarrow> chain_of pins db (a # ys) \<Longrightarrow> chain_of pins db (xs @ a # ys)"
  by (induction xs rule: induct_list012) auto

lemma lock_prev_num:
  assumes "fork_ok env db" "a < length (fd_store db)" "lock_prev pins db a = Some p"
  shows "p < length (fd_store db)" "num_at db a = Suc (num_at db p)" "previous_id (item_at db a) = fi_id (item_at db p)"
    "item_live pins db p"
  using assms by (auto simp: lock_prev_def fork_ok_def links_ok_def split: option.splits if_splits)

lemma block_num_at:
  assumes "fork_ok env db" "a < length (fd_store db)"
  shows "block_num (fi_data (item_at db a)) = fi_num (item_at db a)"
  using item_num[of env db a] assms by (simp add: fork_ok_def)

lemma walk_down_returns:
  assumes "fork_ok env db" "a < length (fd_store db)" "chain_of pins db (acc @ [a])"
  shows "\<exists>r. walk_down pins db n acc a = Some r \<and>
    (\<forall>xs b. r = Inr (xs, b) \<longrightarrow> b < length (fd_store db) \<and> chain_of pins db (xs @ [b]) \<and> fi_num (item_at db b) \<le> n
       \<and> hd (xs @ [b]) = hd (acc @ [a]) \<and> (fi_num (item_at db a) \<le> n \<longrightarrow> xs = acc \<and> b = a)
       \<and> (n \<le> fi_num (item_at db a) \<longrightarrow> fi_num (item_at db b) = n))"
  using assms
proof (induction "num_at db a" arbitrary: a acc)
  case 0
  then have "fi_num (item_at db a) = 0" by (simp add: num_at_def unat_eq_0)
  then show ?case using block_num_at[OF 0(2,3)] 0 by (auto simp: walk_down.simps[of pins db n acc a])
next
  case (Suc k)
  show ?case
  proof (cases "fi_num (item_at db a) > n")
    case False
    then show ?thesis using block_num_at[OF Suc(3,4)] Suc(3-) by (auto simp: walk_down.simps[of pins db n acc a])
  next
    case True
    show ?thesis
    proof (cases "lock_prev pins db a")
      case None
      then show ?thesis using True block_num_at[OF Suc(3,4)] by (auto simp: walk_down.simps[of pins db n acc a])
    next
      case (Some p)
      note l = lock_prev_num[OF Suc(3,4) Some]
      have k: "k = num_at db p" using l(2) Suc(2) by simp
      have c: "chain_of pins db ((acc @ [a]) @ [p])" using chain_of_snoc[OF Suc(5) Some] by simp
      have eq: "walk_down pins db n acc a = walk_down pins db n (acc @ [a]) p"
        using True block_num_at[OF Suc(3,4)] Some by (simp add: walk_down.simps[of pins db n acc a])
      have le: "n \<le> fi_num (item_at db p)"
        using True l(2) unfolding word_less_nat_alt word_le_nat_alt num_at_def by simp
      obtain r where r: "walk_down pins db n (acc @ [a]) p = Some r"
        "\<forall>xs b. r = Inr (xs, b) \<longrightarrow> b < length (fd_store db) \<and> chain_of pins db (xs @ [b]) \<and> fi_num (item_at db b) \<le> n
           \<and> hd (xs @ [b]) = hd ((acc @ [a]) @ [p]) \<and> fi_num (item_at db b) = n"
        using Suc(1)[OF k Suc(3) l(1) c] le by blast
      have "hd ((acc @ [a]) @ [p]) = hd (acc @ [a])" by (simp add: hd_append)
      then show ?thesis using r eq True by (auto simp: not_le)
    qed
  qed
qed

lemma walk_both_returns:
  assumes "fork_ok env db" "a < length (fd_store db)" "b < length (fd_store db)"
    "chain_of pins db (acc1 @ [a])" "chain_of pins db (acc2 @ [b])"
  shows "\<exists>r. walk_both pins db acc1 acc2 a b = Some r \<and> (\<forall>xs ys. r = Inr (xs, ys) \<longrightarrow>
    chain_of pins db xs \<and> chain_of pins db ys \<and> xs \<noteq> [] \<and> ys \<noteq> []
    \<and> hd xs = hd (acc1 @ [a]) \<and> hd ys = hd (acc2 @ [b])
    \<and> previous_id (item_at db (last xs)) = previous_id (item_at db (last ys)))"
  using assms
proof (induction "num_at db a" arbitrary: a b acc1 acc2 rule: less_induct)
  case less
  note step = walk_both.simps[of pins db acc1 acc2 a b]
  show ?case
  proof (cases "previous_id (item_at db a) = previous_id (item_at db b)")
    case True
    then show ?thesis using less.prems by (auto simp: step previous_id_def)
  next
    case False
    show ?thesis
    proof (cases "lock_prev pins db a = None \<or> lock_prev pins db b = None")
      case True
      then show ?thesis using False by (auto simp: step previous_id_def split: option.splits)
    next
      case no: False
      then obtain p q where pq: "lock_prev pins db a = Some p" "lock_prev pins db b = Some q" by auto
      note l = lock_prev_num[OF less.prems(1,2) pq(1)] and m = lock_prev_num[OF less.prems(1,3) pq(2)]
      have "num_at db p < num_at db a" using l(2) by simp
      moreover have c: "chain_of pins db ((acc1 @ [a]) @ [p])" "chain_of pins db ((acc2 @ [b]) @ [q])"
        using chain_of_snoc less.prems(4,5) pq by auto
      moreover have "walk_both pins db acc1 acc2 a b = walk_both pins db (acc1 @ [a]) (acc2 @ [b]) p q"
        using False pq by (simp add: step previous_id_def)
      moreover have "hd ((acc1 @ [a]) @ [p]) = hd (acc1 @ [a])" "hd ((acc2 @ [b]) @ [q]) = hd (acc2 @ [b])"
        by (simp_all add: hd_append)
      ultimately show ?thesis using less.hyps[OF _ less.prems(1) l(1) m(1) c] by simp
    qed
  qed
qed

lemma walk_both_complete:
  "chain_of pins db (a # us) \<Longrightarrow> chain_of pins db (b # vs) \<Longrightarrow> length us = length vs \<Longrightarrow>
   previous_id (item_at db (last (a # us))) = previous_id (item_at db (last (b # vs))) \<Longrightarrow>
   \<exists>xs ys. walk_both pins db acc1 acc2 a b = Some (Inr (xs, ys)) \<and> length xs \<le> length acc1 + length (a # us)"
proof (induction us arbitrary: a b vs acc1 acc2)
  case Nil
  then show ?case by (auto simp: walk_both.simps[of pins db acc1 acc2 a b] previous_id_def)
next
  case (Cons p us)
  then obtain q vs' where vs: "vs = q # vs'" by (cases vs) auto
  show ?case
  proof (cases "previous_id (item_at db a) = previous_id (item_at db b)")
    case True
    then show ?thesis by (auto simp: walk_both.simps[of pins db acc1 acc2 a b] previous_id_def)
  next
    case False
    then have "walk_both pins db acc1 acc2 a b = walk_both pins db (acc1 @ [a]) (acc2 @ [b]) p q"
      using Cons.prems vs by (simp add: walk_both.simps[of pins db acc1 acc2 a b] previous_id_def)
    then show ?thesis using Cons.IH[of p q vs' "acc1 @ [a]" "acc2 @ [b]"] Cons.prems vs by fastforce
  qed
qed

lemma walk_down_complete:
  assumes "fork_ok env db"
  shows "a < length (fd_store db) \<Longrightarrow> chain_of pins db (a # us) \<Longrightarrow> num_at db (last (a # us)) \<le> unat n \<Longrightarrow>
    \<exists>xs b vs. walk_down pins db n acc a = Some (Inr (acc @ xs, b)) \<and> a # us = xs @ b # vs"
proof (induction us arbitrary: a acc)
  case Nil
  then show ?case using block_num_at[OF assms Nil(1)]
    by (auto simp: walk_down.simps[of pins db n acc a] num_at_def word_less_nat_alt)
next
  case (Cons p us)
  show ?case
  proof (cases "fi_num (item_at db a) > n")
    case False
    then show ?thesis using block_num_at[OF assms Cons(2)] by (auto simp: walk_down.simps[of pins db n acc a])
  next
    case True
    have p: "lock_prev pins db a = Some p" using Cons.prems by simp
    have "walk_down pins db n acc a = walk_down pins db n (acc @ [a]) p"
      using True block_num_at[OF assms Cons(2)] p by (simp add: walk_down.simps[of pins db n acc a])
    moreover obtain xs b vs where "walk_down pins db n (acc @ [a]) p = Some (Inr ((acc @ [a]) @ xs, b))" "p # us = xs @ b # vs"
      using Cons.IH[of p "acc @ [a]"] Cons.prems lock_prev_num(1)[OF assms Cons(2) p] by auto
    ultimately show ?thesis by (intro exI[of _ "a # xs"] exI[of _ b] exI[of _ vs]) simp
  qed
qed

lemma chain_num:
  assumes "fork_ok env db"
  shows "a < length (fd_store db) \<Longrightarrow> chain_of pins db (a # us) \<Longrightarrow>
    num_at db a = num_at db (last (a # us)) + length us \<and> last (a # us) < length (fd_store db)"
proof (induction us arbitrary: a)
  case (Cons p us)
  then show ?case using lock_prev_num[OF assms Cons(2), of pins p] Cons.IH[of p] by auto
qed simp

lemma chain_of_suffix: "chain_of pins db (xs @ ys) \<Longrightarrow> chain_of pins db ys"
proof (induction xs)
  case (Cons x xs)
  then show ?case by (cases "xs @ ys") auto
qed simp

lemma fetch_branch_returns:
  assumes "fork_ok env db" "find_id db (fd_index db) first = Some a" "find_id db (fd_index db) second = Some b"
  shows "\<exists>r. fetch_branch_from pins db first second = Some r \<and> (\<forall>xs ys. r = Inr (xs, ys) \<longrightarrow>
    chain_of pins db xs \<and> chain_of pins db ys \<and> xs \<noteq> [] \<and> ys \<noteq> [] \<and> hd xs = a \<and> hd ys = b
    \<and> previous_id (item_at db (last xs)) = previous_id (item_at db (last ys)))"
proof -
  have ab: "a < length (fd_store db)" "b < length (fd_store db)"
    using find_id_Some[OF assms(2)] find_id_Some[OF assms(3)] assms(1) by (auto simp: fork_ok_def container_ok_def)
  note eq = fetch_branch_from_def[of pins db first second, unfolded assms(2,3) option.case]
  obtain r1 where r1: "walk_down pins db (block_num (fi_data (item_at db b))) [] a = Some r1"
    "\<forall>xs c. r1 = Inr (xs, c) \<longrightarrow> c < length (fd_store db) \<and> chain_of pins db (xs @ [c]) \<and> hd (xs @ [c]) = a"
    using walk_down_returns[OF assms(1) ab(1), of pins "[]" "block_num (fi_data (item_at db b))"] by auto
  show ?thesis
  proof (cases r1)
    case (Inl e)
    then show ?thesis using r1(1) by (simp add: eq)
  next
    case (Inr p)
    then obtain xs c where c: "r1 = Inr (xs, c)" by (cases p) auto
    obtain r2 where r2: "walk_down pins db (block_num (fi_data (item_at db c))) [] b = Some r2"
      "\<forall>ys d. r2 = Inr (ys, d) \<longrightarrow> d < length (fd_store db) \<and> chain_of pins db (ys @ [d]) \<and> hd (ys @ [d]) = b"
      using walk_down_returns[OF assms(1) ab(2), of pins "[]" "block_num (fi_data (item_at db c))"] by auto
    show ?thesis
    proof (cases r2)
      case (Inl e)
      then show ?thesis using r1(1) r2(1) c by (simp add: eq)
    next
      case (Inr q)
      then obtain ys d where d: "r2 = Inr (ys, d)" by (cases q) auto
      then show ?thesis using walk_both_returns[OF assms(1), of c d pins xs ys] r1 r2 c by (auto simp: eq)
    qed
  qed
qed

lemma fetch_branch_complete:
  assumes "fork_ok env db" "find_id db (fd_index db) first = Some a" "find_id db (fd_index db) second = Some b"
    and c: "chain_of pins db (a # us)" "chain_of pins db (b # vs)"
      "previous_id (item_at db (last (a # us))) = previous_id (item_at db (last (b # vs)))"
  shows "\<exists>xs ys. fetch_branch_from pins db first second = Some (Inr (xs, ys)) \<and> length xs \<le> length (a # us)"
proof -
  have ab: "a < length (fd_store db)" "b < length (fd_store db)"
    using find_id_Some[OF assms(2)] find_id_Some[OF assms(3)] assms(1) by (auto simp: fork_ok_def container_ok_def)
  have i: "items_ok env db" using assms(1) by (simp add: fork_ok_def)
  note na = chain_num[OF assms(1) ab(1) c(1)] and nb = chain_num[OF assms(1) ab(2) c(2)]
  have last: "num_at db (last (a # us)) = num_at db (last (b # vs))"
    using item_num_previous[OF i conjunct2[OF na]] item_num_previous[OF i conjunct2[OF nb]] c(3) by simp
  note eq = fetch_branch_from_def[of pins db first second, unfolded assms(2,3) option.case]
  note bn = block_num_at[OF assms(1)]
  obtain xs a' us' where x: "walk_down pins db (fi_num (item_at db b)) [] a = Some (Inr (xs, a'))" "a # us = xs @ a' # us'"
    using walk_down_complete[OF assms(1) ab(1) c(1), of "fi_num (item_at db b)" "[]"] last nb by (auto simp: num_at_def)
  have a': "a' < length (fd_store db)" "num_at db a' \<le> num_at db b" "num_at db a \<le> num_at db b \<Longrightarrow> a' = a"
      "num_at db b \<le> num_at db a \<Longrightarrow> num_at db a' = num_at db b"
    using walk_down_returns[OF assms(1) ab(1), of pins "[]" "fi_num (item_at db b)"] x(1)
    by (auto simp: num_at_def word_le_nat_alt)
  have c': "chain_of pins db (a' # us')" using c(1) x(2) chain_of_suffix by metis
  note na' = chain_num[OF assms(1) a'(1) c']
  have l': "last (a' # us') = last (a # us)" using x(2) by simp
  obtain ys b' vs' where y: "walk_down pins db (fi_num (item_at db a')) [] b = Some (Inr (ys, b'))" "b # vs = ys @ b' # vs'"
    using walk_down_complete[OF assms(1) ab(2) c(2), of "fi_num (item_at db a')" "[]"] last na' l' by (auto simp: num_at_def)
  have b': "b' < length (fd_store db)" "num_at db b' = num_at db a'"
    using walk_down_returns[OF assms(1) ab(2), of pins "[]" "fi_num (item_at db a')"] y(1) a'(2)
    by (auto simp: num_at_def word_le_nat_alt)
  have d': "chain_of pins db (b' # vs')" using c(2) y(2) chain_of_suffix by metis
  have m': "last (b' # vs') = last (b # vs)" using y(2) by simp
  have "length us' = length vs'" using na' chain_num[OF assms(1) b'(1) d'] l' m' last b'(2) by simp
  then obtain p q where "walk_both pins db xs ys a' b' = Some (Inr (p, q))" "length p \<le> length xs + length (a' # us')"
    using walk_both_complete[OF c' d'] l' m' c(3) by metis
  moreover have "length xs + length (a' # us') = length (a # us)" using arg_cong[OF x(2), of length] by simp
  ultimately show ?thesis using x(1) y(1) by (simp add: eq bn ab a'(1))
qed

lemma sorted_number_range:
  fixes f :: "nat \<Rightarrow> nat"
  shows "sorted (map f xs) \<Longrightarrow> takeWhile (\<lambda>a. f a = n) (dropWhile (\<lambda>a. f a < n) xs) = filter (\<lambda>a. f a = n) xs"
proof (induction xs)
  case (Cons x xs)
  consider "f x < n" | "f x = n" | "n < f x" by linarith
  then show ?case
  proof cases
    case 2
    then have "\<forall>y\<in>set xs. n \<le> f y" using Cons.prems by auto
    then have "dropWhile (\<lambda>a. f a < n) xs = xs" by (cases xs) auto
    then show ?thesis using 2 Cons by simp
  next
    case 3
    then have "filter (\<lambda>a. f a = n) xs = []" using Cons.prems by (auto simp: filter_empty_conv)
    then show ?thesis using 3 by simp
  qed (use Cons in auto)
qed simp

lemma walk_to_num_chain:
  assumes "fork_ok env db"
  shows "a < length (fd_store db) \<Longrightarrow> chain_of pins db (a # us) \<Longrightarrow> num_at db (last (a # us)) = unat n \<Longrightarrow>
    walk_to_num pins db n a = Some (Some (last (a # us)))"
proof (induction us arbitrary: a)
  case Nil
  then show ?case by (simp add: walk_to_num.simps[of pins db n a] num_at_def word_less_nat_alt)
next
  case (Cons p us)
  have p: "lock_prev pins db a = Some p" using Cons.prems(2) by simp
  have "num_at db (last (a # p # us)) < num_at db a" using chain_num[OF assms Cons.prems(1,2)] by simp
  then have "fi_num (item_at db a) > n" using Cons.prems(3) by (simp add: num_at_def word_less_nat_alt)
  then show ?case using p Cons.IH[of p] Cons.prems lock_prev_num(1)[OF assms Cons.prems(1) p]
    by (simp add: walk_to_num.simps[of pins db n a])
qed

lemma main_branch_lookup:
  assumes "fork_ok env db" "fd_head db = Some h" "chain_of pins db (h # us)" "set (h # us) \<subseteq> set (fd_index db)"
    "num_at db (last (h # us)) = unat n"
  shows "fetch_block_on_main_branch_by_number pins db n = Some (Some (last (h # us)))"
proof -
  have h: "h < length (fd_store db)" using assms(1,2) by (simp add: fork_ok_def)
  have "last (h # us) \<in> set (fd_index db)" using assms(4) last_in_set[of "h # us"] by blast
  moreover have f: "fetch_block_by_number db n = filter (\<lambda>a. num_at db a = unat n) (fd_index db)"
    using assms(1) unfolding fetch_block_by_number_def
    by (intro sorted_number_range) (simp add: fork_ok_def container_ok_def)
  ultimately have m: "last (h # us) \<in> set (fetch_block_by_number db n)" using assms(5) by simp
  have n: "\<not> n > fi_num (item_at db h)"
    using chain_num[OF assms(1) h assms(3)] assms(5) by (simp add: num_at_def word_less_nat_alt)
  have w: "walk_main_branch_to_num pins db n h = Some (Some (last (h # us)))"
    using n walk_to_num_chain[OF assms(1) h assms(3,5)] by (simp add: walk_main_branch_to_num_def)
  show ?thesis
  proof (cases "fetch_block_by_number db n")
    case Nil
    then show ?thesis using m by simp
  next
    case (Cons x xs)
    then show ?thesis using m n w assms(2) unfolding fetch_block_on_main_branch_by_number_def by (cases xs) (auto simp: Let_def)
  qed
qed

section \<open>Properties\<close>

text \<open>C35: In every state the operations of the fork database can reach, items agree with their blocks, a link leads to the block named as the predecessor, whose number is one less, and both indices have unique identifiers and are ordered by number; so the links form a forest.\<close>

theorem fork_database_invariant:
  assumes "fork_reach sel env db"
  shows "fork_ok env db"
  using assms by (rule fork_reach_ok)

theorem fork_database_invariant_witness:
  "fork_reach (\<lambda>_. 0) sample_env sample_db \<and> fork_ok sample_env sample_db \<and> fd_index sample_db = [0]"
proof -
  have r: "fork_reach (\<lambda>_. 0) sample_env sample_db"
    unfolding sample_db_def by (intro fork_reach_start fork_reach_init)
  show ?thesis using r fork_database_invariant[OF r]
    by (simp add: sample_db_def start_block_def new_item_def index_insert_def find_id_def fork_database_init_def)
qed

text \<open>C34: A push always returns. It keeps the head a longest chain, replaces it only by a strictly longer one, returns it when it succeeds, and leaves no block in the cache whose predecessor is linked, unless some block was too old.\<close>

theorem fork_push_block_correct:
  assumes "fork_reach sel env db" "longest db" "settled {} db"
  shows "\<exists>db' r. fork_push_block sel env b db = Some (db', r) \<and> longest db'
    \<and> (\<forall>h. fd_head db = Some h \<longrightarrow> (\<exists>h'. fd_head db' = Some h' \<and> (h' = h \<or> num_at db' h < num_at db' h')))
    \<and> (\<forall>x. r = Inr x \<longrightarrow> x = fd_head db')
    \<and> (r \<noteq> Inl Block_Too_Old_Exception \<longrightarrow> settled {} db')"
proof -
  note ok = fork_reach_ok[OF assms(1)]
  obtain a db1 where n: "new_item env b db = (a, db1)" by fastforce
  obtain db' r where p: "fork_push_block sel env b db = Some (db', r)"
    by (rule push_block_cases[OF ok n, of sel]) (simp split: if_splits)
  show ?thesis
    using push_block_ok[OF ok p] assms(2,3) by (intro exI[of _ db'] exI[of _ r] conjI p) blast+
qed

theorem fork_push_block_correct_witness:
  "\<exists>db' r. fork_push_block (\<lambda>_. 0) sample_env sample_second sample_db
     = Some (db', r) \<and> longest db' \<and> (r \<noteq> Inl Block_Too_Old_Exception \<longrightarrow> settled {} db')"
proof -
  have r: "fork_reach (\<lambda>_. 0) sample_env sample_db"
    unfolding sample_db_def by (intro fork_reach_start fork_reach_init)
  have "longest sample_db" "settled {} sample_db"
    by (simp_all add: sample_db_def start_block_def new_item_def index_insert_def find_id_def fork_database_init_def longest_def settled_def)
  from fork_push_block_correct[OF r this, of sample_second] show ?thesis
    by (elim exE conjE) (rule exI, rule exI, intro conjI; assumption)
qed

text \<open>C36: For two blocks of the index the search for their branches always ends. A result is two linked branches that start at the blocks and end at blocks with the same predecessor, and there is one, no longer than any other, whenever such branches exist.\<close>

theorem fetch_branch_from_common_ancestor:
  assumes "fork_reach sel env db" "find_id db (fd_index db) first = Some a" "find_id db (fd_index db) second = Some b"
  shows "\<exists>r. fetch_branch_from pins db first second = Some r
    \<and> (\<forall>xs ys. r = Inr (xs, ys) \<longrightarrow> xs \<noteq> [] \<and> ys \<noteq> [] \<and> hd xs = a \<and> hd ys = b \<and> chain_of pins db xs \<and> chain_of pins db ys
         \<and> previous_id (item_at db (last xs)) = previous_id (item_at db (last ys)))
    \<and> (\<forall>us vs. chain_of pins db (a # us) \<longrightarrow> chain_of pins db (b # vs) \<longrightarrow>
         previous_id (item_at db (last (a # us))) = previous_id (item_at db (last (b # vs))) \<longrightarrow>
         (\<exists>xs ys. r = Inr (xs, ys) \<and> length xs \<le> length (a # us)))"
proof -
  note ok = fork_reach_ok[OF assms(1)]
  obtain r where r: "fetch_branch_from pins db first second = Some r"
    and sound: "\<And>xs ys. r = Inr (xs, ys) \<Longrightarrow> chain_of pins db xs \<and> chain_of pins db ys \<and> xs \<noteq> [] \<and> ys \<noteq> [] \<and> hd xs = a
      \<and> hd ys = b \<and> previous_id (item_at db (last xs)) = previous_id (item_at db (last ys))"
    using fetch_branch_returns[OF ok assms(2,3), of pins] by (elim exE conjE) simp
  have complete: "\<exists>xs ys. r = Inr (xs, ys) \<and> length xs \<le> length (a # us)"
    if "chain_of pins db (a # us)" "chain_of pins db (b # vs)"
      "previous_id (item_at db (last (a # us))) = previous_id (item_at db (last (b # vs)))" for us vs
    using fetch_branch_complete[OF ok assms(2,3) that] r by simp
  show ?thesis
    by (intro exI[of _ r] conjI r allI impI complete) (simp_all add: sound)
qed

theorem fetch_branch_from_common_ancestor_witness:
  "\<exists>xs ys. fetch_branch_from [] sample_db (block_id sample_env (signed_block_header.truncate sample_first))
      (block_id sample_env (signed_block_header.truncate sample_first)) = Some (Inr (xs, ys)) \<and> hd xs = 0 \<and> hd ys = 0"
proof -
  have r: "fork_reach (\<lambda>_. 0) sample_env sample_db"
    unfolding sample_db_def by (intro fork_reach_start fork_reach_init)
  have f: "find_id sample_db (fd_index sample_db) (block_id sample_env (signed_block_header.truncate sample_first)) = Some 0"
    by (simp add: sample_db_def start_block_def new_item_def index_insert_def find_id_def fork_database_init_def item_at_def mk_fork_item_def)
  obtain q where q: "fetch_branch_from [] sample_db (block_id sample_env (signed_block_header.truncate sample_first))
      (block_id sample_env (signed_block_header.truncate sample_first)) = Some q"
    and s: "\<forall>xs ys. q = Inr (xs, ys) \<longrightarrow> xs \<noteq> [] \<and> ys \<noteq> [] \<and> hd xs = 0 \<and> hd ys = 0 \<and> chain_of [] sample_db xs
      \<and> chain_of [] sample_db ys \<and> previous_id (item_at sample_db (last xs)) = previous_id (item_at sample_db (last ys))"
    and c: "\<forall>us vs. chain_of [] sample_db (0 # us) \<longrightarrow> chain_of [] sample_db (0 # vs) \<longrightarrow>
      previous_id (item_at sample_db (last (0 # us))) = previous_id (item_at sample_db (last (0 # vs))) \<longrightarrow>
      (\<exists>xs ys. q = Inr (xs, ys) \<and> length xs \<le> length (0 # us))"
    using fetch_branch_from_common_ancestor[OF r f f, of "[]"] by (elim exE conjE)
  have "\<exists>xs ys. q = Inr (xs, ys)" using c[rule_format, of "[]" "[]"] by auto
  then show ?thesis using q s by auto
qed

end
