(* ===== verification/Chain_Objects.thy ===== *)
theory Chain_Objects
  imports Transactions Block Chainbase_Undo
begin

text \<open>
  The objects of the chain state: the classes of
  \<open>libraries/chain/include/xgt/chain/*_object*.hpp\<close>, one table for each, and the chain
  state as the record of all tables.  A table is what the current revision of a
  \<open>chainbase\<close> index shows, its objects by identifier and the next identifier; the lemmas
  show that creating, modifying and removing an object of a table is what the index does,
  and how each of them changes a sum over the objects.  The build modelled is the full node
  on the main net: neither \<open>IS_LOW_MEM\<close> nor \<open>IS_TEST_NET\<close> is defined.
\<close>

section \<open>Tables\<close>

record 'v table =
  tb_rows :: "(nat, 'v) flat_map"
  tb_next :: nat

definition tb_empty :: "'v table" where
  "tb_empty = \<lparr>tb_rows = [], tb_next = 0\<rparr>"

text \<open>The constructor of an object knows its identifier.\<close>

definition tb_create :: "'v conflict \<Rightarrow> (nat \<Rightarrow> 'v) \<Rightarrow> 'v table \<Rightarrow> 'v table result" where
  "tb_create conflict mk t =
    (let i = tb_next t; v = mk i in
     if map_of (tb_rows t) i \<noteq> None \<or> \<not> insertable conflict i v (tb_rows t)
     then Inl (Logic_Error ''could not insert object, most likely a uniqueness constraint was violated'')
     else Inr \<lparr>tb_rows = fm_update i v (tb_rows t), tb_next = i + 1\<rparr>)"

definition tb_modify :: "'v conflict \<Rightarrow> nat \<Rightarrow> ('v \<Rightarrow> 'v) \<Rightarrow> 'v table \<Rightarrow> 'v table result" where
  "tb_modify conflict i f t = (case map_of (tb_rows t) i of
      None \<Rightarrow> Inl Out_Of_Range_Exception
    | Some v \<Rightarrow>
        if \<not> insertable conflict i (f v) (tb_rows t)
        then Inl (Logic_Error ''Could not modify object, most likely a uniqueness constraint was violated'')
        else Inr (t\<lparr>tb_rows := fm_update i (f v) (tb_rows t)\<rparr>))"

definition tb_remove :: "nat \<Rightarrow> 'v table \<Rightarrow> 'v table result" where
  "tb_remove i t = (case map_of (tb_rows t) i of
      None \<Rightarrow> Inl Out_Of_Range_Exception
    | Some v \<Rightarrow> Inr (t\<lparr>tb_rows := fm_erase i (tb_rows t)\<rparr>))"

text \<open>The object with a given key; a key of several objects finds the first in the order of
  identifiers, as the composite keys with the identifier last do.\<close>

definition tb_find :: "('v \<Rightarrow> bool) \<Rightarrow> 'v table \<Rightarrow> (nat \<times> 'v) option" where
  "tb_find p t = find (\<lambda>r. p (snd r)) (tb_rows t)"

definition tb_get :: "('v \<Rightarrow> bool) \<Rightarrow> 'v table \<Rightarrow> (nat \<times> 'v) result" where
  "tb_get p t = res_of_option Out_Of_Range_Exception (tb_find p t)"

section \<open>Wallets\<close>

definition XGT_INIT_MINER_NAME :: wallet_name where
  "XGT_INIT_MINER_NAME = ''XGT0000000000000000000000000000000000000000''"

definition XGT_MINER_WALLET :: wallet_name where
  "XGT_MINER_WALLET = ''XGT0000000000000000000000000000000000000001''"

definition XGT_NULL_WALLET :: wallet_name where
  "XGT_NULL_WALLET = ''XGT0000000000000000000000000000000000000002''"

definition XGT_TEMP_WALLET :: wallet_name where
  "XGT_TEMP_WALLET = ''XGT0000000000000000000000000000000000000003''"

definition XGT_TREASURY_WALLET :: wallet_name where
  "XGT_TREASURY_WALLET = ''XGT0000000000000000000000000000000000000004''"

definition XGT_ROOT_POST_PARENT :: wallet_name where
  "XGT_ROOT_POST_PARENT = []"

record energybar =
  current_energy :: int
  last_update_time :: "32 word"

record wallet_object =
  wa_name :: wallet_name
  wa_memo_key :: public_key
  last_account_update :: time_point_sec
  wa_created :: time_point_sec
  mined :: bool
  recovery_account :: wallet_name
  reset_account :: wallet_name
  last_account_recovery :: time_point_sec
  comment_count :: "32 word"
  lifetime_vote_count :: "32 word"
  post_count :: "32 word"
  can_vote :: bool
  wa_energybar :: energybar
  wa_balance :: asset
  witnesses_voted_for :: "16 word"
  last_post :: time_point_sec
  last_root_post :: time_point_sec
  last_post_edit :: time_point_sec
  last_vote_time :: time_point_sec
  post_bandwidth :: "32 word"

definition wallet_default :: wallet_object where
  "wallet_default = \<lparr>wa_name = [], wa_memo_key = [], last_account_update = 0, wa_created = 0, mined = True,
     recovery_account = [], reset_account = XGT_NULL_WALLET, last_account_recovery = 0, comment_count = 0,
     lifetime_vote_count = 0, post_count = 0, can_vote = True,
     wa_energybar = \<lparr>current_energy = 0, last_update_time = 0\<rparr>, wa_balance = asset_default,
     witnesses_voted_for = 0, last_post = 0, last_root_post = 0, last_post_edit = 0,
     last_vote_time = 0, post_bandwidth = 0\<rparr>"

record account_metadata_object =
  md_account :: nat
  md_json_metadata :: string
  md_social_json_metadata :: string

record account_authority_object =
  au_account :: wallet_name
  au_recovery :: authority
  au_money :: authority
  au_social :: authority
  last_recovery_update :: time_point_sec

definition account_authority_default :: account_authority_object where
  "account_authority_default = \<lparr>au_account = [], au_recovery = authority_default, au_money = authority_default,
     au_social = authority_default, last_recovery_update = 0\<rparr>"

record recovery_authority_history_object =
  hi_account :: wallet_name
  previous_recovery_authority :: authority
  last_valid_time :: time_point_sec

record account_recovery_request_object =
  rr_account_to_recover :: wallet_name
  rr_new_recovery_authority :: authority
  rr_expires :: time_point_sec

record change_recovery_account_request_object =
  ch_account_to_recover :: wallet_name
  ch_recovery_account :: wallet_name
  effective_on :: time_point_sec

section \<open>Witnesses, comments and escrows\<close>

record chain_properties =
  cp_account_creation_fee :: asset
  cp_maximum_block_size :: "32 word"

definition chain_properties_default :: chain_properties where
  "chain_properties_default = \<lparr>cp_account_creation_fee = \<lparr>amount = XGT_MIN_WALLET_CREATION_FEE, symbol = XGT_SYMBOL\<rparr>,
     cp_maximum_block_size = XGT_MIN_BLOCK_SIZE_LIMIT * 2\<rparr>"

record witness_object =
  ws_owner :: wallet_name
  ws_created :: time_point_sec
  ws_url :: string
  total_missed :: "32 word"
  last_aslot :: "64 word"
  last_confirmed_block_num :: "64 word"
  pow_worker :: "64 word"
  signing_key :: public_key
  ws_props :: chain_properties
  ws_votes :: int
  virtual_last_update :: uint128
  virtual_position :: uint128
  virtual_scheduled_time :: uint128
  last_work :: digest
  running_version :: version
  hardfork_vote :: version
  hardfork_time_vote :: time_point_sec

definition witness_default :: witness_object where
  "witness_default = \<lparr>ws_owner = [], ws_created = 0, ws_url = [], total_missed = 0, last_aslot = 0,
     last_confirmed_block_num = 0, pow_worker = 0, signing_key = [], ws_props = chain_properties_default,
     ws_votes = 0, virtual_last_update = \<lparr>u_hi = 0, u_lo = 0\<rparr>, virtual_position = \<lparr>u_hi = 0, u_lo = 0\<rparr>,
     virtual_scheduled_time = \<lparr>u_hi = - 1, u_lo = - 1\<rparr>, last_work = replicate 32 0,
     running_version = \<lparr>v_num = 0\<rparr>, hardfork_vote = \<lparr>v_num = 0\<rparr>, hardfork_time_vote = XGT_GENESIS_TIME\<rparr>"

record comment_object =
  category :: string
  parent_author :: wallet_name
  parent_permlink :: string
  author :: wallet_name
  permlink :: string
  last_update :: time_point_sec
  cm_created :: time_point_sec
  active :: time_point_sec
  depth :: "16 word"
  children :: "32 word"
  net_votes :: int
  root_comment :: nat
  allow_replies :: bool
  allow_votes :: bool

definition comment_default :: comment_object where
  "comment_default = \<lparr>category = [], parent_author = [], parent_permlink = [], author = [], permlink = [],
     last_update = 0, cm_created = 0, active = 0, depth = 0, children = 0, net_votes = 0, root_comment = 0,
     allow_replies = True, allow_votes = True\<rparr>"

record comment_content_object =
  con_comment :: nat
  con_title :: string
  con_body :: string
  con_json_metadata :: string

record comment_vote_object =
  cv_voter :: nat
  cv_comment :: nat
  cv_weight :: "64 word"
  cv_last_update :: time_point_sec
  num_changes :: int
  cv_symbol :: asset_symbol_type

record escrow_object =
  es_escrow_id :: "32 word"
  es_from :: wallet_name
  es_to :: wallet_name
  es_agent :: wallet_name
  ratification_deadline :: time_point_sec
  escrow_expiration :: time_point_sec
  sbd_balance :: asset
  xgt_balance :: asset
  pending_fee :: asset
  to_approved :: bool
  agent_approved :: bool
  disputed :: bool

definition is_approved :: "escrow_object \<Rightarrow> bool" where
  "is_approved e = (to_approved e \<and> agent_approved e)"

definition escrow_default :: escrow_object where
  "escrow_default = \<lparr>es_escrow_id = 20, es_from = [], es_to = [], es_agent = [], ratification_deadline = 0,
     escrow_expiration = 0, sbd_balance = asset_default, xgt_balance = asset_default, pending_fee = asset_default,
     to_approved = False, agent_approved = False, disputed = False\<rparr>"

section \<open>Tokens\<close>

datatype xtt_phase = Setup | Setup_Completed | Ico | Ico_Completed | Launch_Failed | Launch_Success

fun phase_num :: "xtt_phase \<Rightarrow> nat" where
  "phase_num Setup = 0"
| "phase_num Setup_Completed = 1"
| "phase_num Ico = 2"
| "phase_num Ico_Completed = 3"
| "phase_num Launch_Failed = 4"
| "phase_num Launch_Success = 5"

record account_regular_balance_object =
  bal_name :: wallet_name
  liquid :: asset
  withdrawn :: int
  to_withdraw :: int
  bal_energybar :: energybar
  bal_last_vote_time :: time_point_sec

definition balance_default :: account_regular_balance_object where
  "balance_default = \<lparr>bal_name = [], liquid = asset_default, withdrawn = 0, to_withdraw = 0,
     bal_energybar = \<lparr>current_energy = 0, last_update_time = 0\<rparr>, bal_last_vote_time = 0\<rparr>"

definition initialize_assets :: "asset_symbol_type \<Rightarrow> account_regular_balance_object \<Rightarrow> account_regular_balance_object" where
  "initialize_assets s b = b\<lparr>liquid := \<lparr>amount = 0, symbol = s\<rparr>\<rparr>"

definition XGT_REVERSE_AUCTION_WINDOW_SECONDS :: "32 word" where
  "XGT_REVERSE_AUCTION_WINDOW_SECONDS = 60 * 5"

definition XGT_VOTING_ENERGY_REGENERATION_SECONDS :: "32 word" where
  "XGT_VOTING_ENERGY_REGENERATION_SECONDS = 1 * 60 * 60 * 24"

definition XTT_DEFAULT_VOTES_PER_REGEN_PERIOD :: "32 word" where
  "XTT_DEFAULT_VOTES_PER_REGEN_PERIOD = 50"

definition XGT_CONTENT_CONSTANT_HF0 :: uint128 where
  "XGT_CONTENT_CONSTANT_HF0 = u128_of_u64 2000000000000"

record xtt_token_object =
  liquid_symbol :: asset_symbol_type
  control_account :: wallet_name
  desired_ticker :: string
  phase :: xtt_phase
  tk_current_supply :: int
  recent_claims :: uint128
  allow_voting :: bool
  reverse_auction_window_seconds :: "32 word"
  tk_vote_regeneration_period_seconds :: "32 word"
  tk_votes_per_regeneration_period :: "32 word"
  content_constant :: uint128
  allow_downvotes :: bool
  tk_max_supply :: int

definition xtt_token_default :: xtt_token_object where
  "xtt_token_default = \<lparr>liquid_symbol = from_asset_num 0, control_account = [], desired_ticker = [],
     phase = Setup, tk_current_supply = 0, recent_claims = u128_of_u64 0, allow_voting = True,
     reverse_auction_window_seconds = XGT_REVERSE_AUCTION_WINDOW_SECONDS,
     tk_vote_regeneration_period_seconds = XGT_VOTING_ENERGY_REGENERATION_SECONDS,
     tk_votes_per_regeneration_period = XTT_DEFAULT_VOTES_PER_REGEN_PERIOD,
     content_constant = XGT_CONTENT_CONSTANT_HF0, allow_downvotes = True, tk_max_supply = 0\<rparr>"

record xtt_ico_object =
  ico_symbol :: asset_symbol_type
  contribution_begin_time :: time_point_sec
  contribution_end_time :: time_point_sec
  launch_time :: time_point_sec
  ico_xgt_units_min :: int
  ico_min_unit_ratio :: "32 word"
  ico_max_unit_ratio :: "32 word"
  contributed :: asset
  processed_contributions :: int

definition xtt_ico_default :: xtt_ico_object where
  "xtt_ico_default = \<lparr>ico_symbol = from_asset_num 0, contribution_begin_time = 0, contribution_end_time = 0,
     launch_time = 0, ico_xgt_units_min = - 1, ico_min_unit_ratio = 0, ico_max_unit_ratio = 0,
     contributed = asset_default, processed_contributions = 0\<rparr>"

record xtt_ico_tier_object =
  tier_symbol :: asset_symbol_type
  tier_xgt_units_cap :: int
  tier_generation_unit :: xtt_generation_unit

record xtt_contribution_object =
  ctb_symbol :: asset_symbol_type
  ctb_contributor :: wallet_name
  ctb_contribution_id :: "32 word"
  ctb_contribution :: asset

definition XTT_MAX_NAI_POOL_COUNT :: nat where "XTT_MAX_NAI_POOL_COUNT = 10"

record nai_pool_object =
  num_available_nais :: nat
  attempts_per_block :: "32 word"
  collisions_per_block :: "32 word"
  np_last_block_id :: block_id_type
  nais :: "asset_symbol_type list"

definition block_id_default :: block_id_type where
  "block_id_default = replicate 20 0"

definition nai_pool_default :: nai_pool_object where
  "nai_pool_default = \<lparr>num_available_nais = 0, attempts_per_block = 0, collisions_per_block = 0,
     np_last_block_id = block_id_default, nais = replicate XTT_MAX_NAI_POOL_COUNT (from_asset_num 0)\<rparr>"

definition nai_pool_contains :: "nai_pool_object \<Rightarrow> asset_symbol_type \<Rightarrow> bool" where
  "nai_pool_contains npo a =
    (from_asset_num (get_stripped_precision_xtt_num a) \<in> set (take (num_available_nais npo) (nais npo)))"

section \<open>Global properties and bookkeeping\<close>

definition XGT_INITIAL_VOTE_POWER_RATE :: "32 word" where "XGT_INITIAL_VOTE_POWER_RATE = 40"

record dynamic_global_property_object =
  head_block_number :: "32 word"
  dgp_head_block_id :: block_id_type
  dgp_time :: time_point_sec
  mining_target :: digest
  last_mining_recalc_time :: time_point_sec
  total_pow :: "64 word"
  num_pow_witnesses :: "32 word"
  virtual_supply :: asset
  current_supply :: asset
  confidential_supply :: asset
  dgp_maximum_block_size :: "32 word"
  required_actions_partition_percent :: "16 word"
  current_aslot :: "64 word"
  recent_slots_filled :: uint128
  participation_count :: "8 word"
  last_irreversible_block_num :: "32 word"
  target_votes_per_period :: "32 word"
  delegation_return_period :: "32 word"
  reverse_auction_seconds :: "64 word"
  next_maintenance_time :: time_point_sec
  last_budget_time :: time_point_sec
  downvote_pool_percent :: "16 word"
  xtt_creation_fee :: asset

definition dgp_default :: dynamic_global_property_object where
  "dgp_default = \<lparr>head_block_number = 0, dgp_head_block_id = block_id_default, dgp_time = 0,
     mining_target = replicate 32 0, last_mining_recalc_time = 0, total_pow = - 1, num_pow_witnesses = 0,
     virtual_supply = asset_default, current_supply = asset_default, confidential_supply = asset_default,
     dgp_maximum_block_size = 0, required_actions_partition_percent = 0, current_aslot = 0,
     recent_slots_filled = u128_of_u64 0, participation_count = 0, last_irreversible_block_num = 0,
     target_votes_per_period = XGT_INITIAL_VOTE_POWER_RATE,
     delegation_return_period = XGT_VOTING_ENERGY_REGENERATION_SECONDS, reverse_auction_seconds = 0,
     next_maintenance_time = 0, last_budget_time = 0, downvote_pool_percent = 0,
     xtt_creation_fee = \<lparr>amount = 1000, symbol = XGT_SYMBOL\<rparr>\<rparr>"

record hardfork_property_object =
  processed_hardforks :: "time_point_sec list"
  last_hardfork :: "32 word"
  current_hardfork_version :: version
  next_hardfork :: version
  next_hardfork_time :: time_point_sec

definition hardfork_property_default :: hardfork_property_object where
  "hardfork_property_default = \<lparr>processed_hardforks = [], last_hardfork = 0, current_hardfork_version = \<lparr>v_num = 0\<rparr>,
     next_hardfork = \<lparr>v_num = 0\<rparr>, next_hardfork_time = 0\<rparr>"

record transaction_object =
  packed_trx :: bytes
  trx_id :: bytes
  trx_expiration :: time_point_sec

record pending_required_action_object =
  execution_time :: time_point_sec
  pending_action :: required_automated_action

record contract_object =
  ct_owner :: wallet_name
  ct_contract_hash :: bytes
  ct_code :: bytes

definition contract_default :: contract_object where
  "contract_default = \<lparr>ct_owner = [], ct_contract_hash = replicate 20 0, ct_code = []\<rparr>"

text \<open>\<open>strcmp_less\<close> compares the characters before the first null character.\<close>

definition c_str :: "string \<Rightarrow> string" where
  "c_str s = takeWhile (\<lambda>c. c \<noteq> CHR 0x00) s"

section \<open>The chain state\<close>

record chain_db =
  wallets :: "wallet_object table"
  metadata :: "account_metadata_object table"
  authorities :: "account_authority_object table"
  recovery_history :: "recovery_authority_history_object table"
  recovery_requests :: "account_recovery_request_object table"
  change_requests :: "change_recovery_account_request_object table"
  witnesses :: "witness_object table"
  comments :: "comment_object table"
  comment_contents :: "comment_content_object table"
  comment_votes :: "comment_vote_object table"
  escrows :: "escrow_object table"
  balances :: "account_regular_balance_object table"
  tokens :: "xtt_token_object table"
  icos :: "xtt_ico_object table"
  ico_tiers :: "xtt_ico_tier_object table"
  contributions :: "xtt_contribution_object table"
  nai_pool :: nai_pool_object
  required_actions :: "pending_required_action_object table"
  contracts :: "contract_object table"
  recent_transactions :: "transaction_object table"
  block_summaries :: "block_id_type list"
  dgp :: dynamic_global_property_object
  hardforks :: hardfork_property_object

definition chain_db_init :: chain_db where
  "chain_db_init = \<lparr>wallets = tb_empty, metadata = tb_empty, authorities = tb_empty, recovery_history = tb_empty,
     recovery_requests = tb_empty, change_requests = tb_empty, witnesses = tb_empty, comments = tb_empty,
     comment_contents = tb_empty, comment_votes = tb_empty, escrows = tb_empty, balances = tb_empty,
     tokens = tb_empty, icos = tb_empty, ico_tiers = tb_empty, contributions = tb_empty,
     nai_pool = nai_pool_default, required_actions = tb_empty, contracts = tb_empty,
     recent_transactions = tb_empty, block_summaries = [], dgp = dgp_default,
     hardforks = hardfork_property_default\<rparr>"

subsection \<open>Unique keys\<close>

definition same_wallet :: "wallet_object conflict" where
  "same_wallet a b = (wa_name a = wa_name b)"

definition same_metadata :: "account_metadata_object conflict" where
  "same_metadata a b = (md_account a = md_account b)"

definition same_recovery_request :: "account_recovery_request_object conflict" where
  "same_recovery_request a b = (rr_account_to_recover a = rr_account_to_recover b)"

definition same_change_request :: "change_recovery_account_request_object conflict" where
  "same_change_request a b = (ch_account_to_recover a = ch_account_to_recover b)"

definition same_witness :: "witness_object conflict" where
  "same_witness a b = (ws_owner a = ws_owner b)"

definition same_comment :: "comment_object conflict" where
  "same_comment a b = (author a = author b \<and> c_str (permlink a) = c_str (permlink b))"

definition same_content :: "comment_content_object conflict" where
  "same_content a b = (con_comment a = con_comment b)"

definition same_vote :: "comment_vote_object conflict" where
  "same_vote a b = (cv_comment a = cv_comment b \<and> cv_voter a = cv_voter b \<and> cv_symbol a = cv_symbol b)"

definition same_escrow :: "escrow_object conflict" where
  "same_escrow a b = (es_from a = es_from b \<and> es_escrow_id a = es_escrow_id b)"

definition same_balance :: "account_regular_balance_object conflict" where
  "same_balance a b = (bal_name a = bal_name b \<and> symbol (liquid a) = symbol (liquid b))"

definition same_token :: "xtt_token_object conflict" where
  "same_token a b = (liquid_symbol a = liquid_symbol b)"

definition same_ico :: "xtt_ico_object conflict" where
  "same_ico a b = (ico_symbol a = ico_symbol b)"

definition same_tier :: "xtt_ico_tier_object conflict" where
  "same_tier a b = (tier_symbol a = tier_symbol b \<and> tier_xgt_units_cap a = tier_xgt_units_cap b)"

definition same_contribution :: "xtt_contribution_object conflict" where
  "same_contribution a b = (ctb_symbol a = ctb_symbol b \<and> ctb_contributor a = ctb_contributor b
     \<and> ctb_contribution_id a = ctb_contribution_id b)"

definition same_contract :: "contract_object conflict" where
  "same_contract a b = (ct_owner a = ct_owner b \<or> ct_contract_hash a = ct_contract_hash b)"

definition same_transaction :: "transaction_object conflict" where
  "same_transaction a b = (trx_id a = trx_id b)"

definition no_conflict :: "'v conflict" where
  "no_conflict a b = False"

subsection \<open>Lookups\<close>

definition find_account :: "chain_db \<Rightarrow> wallet_name \<Rightarrow> (nat \<times> wallet_object) option" where
  "find_account db name = tb_find (\<lambda>w. wa_name w = name) (wallets db)"

definition get_account :: "chain_db \<Rightarrow> wallet_name \<Rightarrow> (nat \<times> wallet_object) result" where
  "get_account db name = tb_get (\<lambda>w. wa_name w = name) (wallets db)"

definition get_account_authority :: "chain_db \<Rightarrow> wallet_name \<Rightarrow> (nat \<times> account_authority_object) result" where
  "get_account_authority db name = tb_get (\<lambda>a. au_account a = name) (authorities db)"

definition find_witness :: "chain_db \<Rightarrow> wallet_name \<Rightarrow> (nat \<times> witness_object) option" where
  "find_witness db name = tb_find (\<lambda>w. ws_owner w = name) (witnesses db)"

definition find_comment :: "chain_db \<Rightarrow> wallet_name \<Rightarrow> string \<Rightarrow> (nat \<times> comment_object) option" where
  "find_comment db name link = tb_find (\<lambda>c. author c = name \<and> c_str (permlink c) = c_str link) (comments db)"

definition get_comment :: "chain_db \<Rightarrow> wallet_name \<Rightarrow> string \<Rightarrow> (nat \<times> comment_object) result" where
  "get_comment db name link = res_of_option Out_Of_Range_Exception (find_comment db name link)"

definition find_escrow :: "chain_db \<Rightarrow> wallet_name \<Rightarrow> 32 word \<Rightarrow> (nat \<times> escrow_object) option" where
  "find_escrow db name i = tb_find (\<lambda>e. es_from e = name \<and> es_escrow_id e = i) (escrows db)"

definition get_escrow :: "chain_db \<Rightarrow> wallet_name \<Rightarrow> 32 word \<Rightarrow> (nat \<times> escrow_object) result" where
  "get_escrow db name i = res_of_option Out_Of_Range_Exception (find_escrow db name i)"

definition find_token_by_symbol :: "chain_db \<Rightarrow> asset_symbol_type \<Rightarrow> (nat \<times> xtt_token_object) option" where
  "find_token_by_symbol db s = tb_find (\<lambda>t. liquid_symbol t = s) (tokens db)"

definition find_ico :: "chain_db \<Rightarrow> asset_symbol_type \<Rightarrow> (nat \<times> xtt_ico_object) option" where
  "find_ico db s = tb_find (\<lambda>i. ico_symbol i = s) (icos db)"

definition head_block_time :: "chain_db \<Rightarrow> time_point_sec" where
  "head_block_time db = dgp_time (dgp db)"

definition head_block_num :: "chain_db \<Rightarrow> 32 word" where
  "head_block_num db = head_block_number (dgp db)"

definition head_block_id :: "chain_db \<Rightarrow> block_id_type" where
  "head_block_id db = dgp_head_block_id (dgp db)"

definition last_non_undoable_block_num :: "chain_db \<Rightarrow> 32 word" where
  "last_non_undoable_block_num db = last_irreversible_block_num (dgp db)"

definition get_hardfork :: "chain_db \<Rightarrow> 32 word" where
  "get_hardfork db = of_nat (length (processed_hardforks (hardforks db))) - 1"

definition has_hardfork :: "32 word \<Rightarrow> chain_db \<Rightarrow> bool" where
  "has_hardfork hf db = (length (processed_hardforks (hardforks db)) > unat hf)"

section \<open>Facts about tables\<close>

definition tb_wf :: "'v conflict \<Rightarrow> 'v table \<Rightarrow> bool" where
  "tb_wf conflict t \<longleftrightarrow> fm_sorted (tb_rows t) \<and> (\<forall>i v. (i, v) \<in> set (tb_rows t) \<longrightarrow> i < tb_next t)
     \<and> (\<forall>i v j w. (i, v) \<in> set (tb_rows t) \<and> (j, w) \<in> set (tb_rows t) \<and> i \<noteq> j \<longrightarrow> \<not> conflict v w)"

definition tb_sum :: "('v \<Rightarrow> int) \<Rightarrow> 'v table \<Rightarrow> int" where
  "tb_sum f t = sum_list (map (\<lambda>r. f (snd r)) (tb_rows t))"

definition tb_all :: "('v \<Rightarrow> bool) \<Rightarrow> 'v table \<Rightarrow> bool" where
  "tb_all p t = list_all (\<lambda>r. p (snd r)) (tb_rows t)"

definition tb_view :: "'v generic_index \<Rightarrow> 'v table" where
  "tb_view g = \<lparr>tb_rows = indices g, tb_next = next_id g\<rparr>"

text \<open>A table shows what the index does.\<close>

definition res_map :: "('a \<Rightarrow> 'b) \<Rightarrow> 'a result \<Rightarrow> 'b result" where
  "res_map f r = (case r of Inl e \<Rightarrow> Inl e | Inr x \<Rightarrow> Inr (f x))"

lemma indices_on [simp]:
  "indices (on_modify i v g) = indices g" "indices (on_remove i v g) = indices g" "indices (on_create i g) = indices g"
  "next_id (on_modify i v g) = next_id g" "next_id (on_remove i v g) = next_id g" "next_id (on_create i g) = next_id g"
  by (simp_all add: on_modify_def on_remove_def on_create_def map_head_def split: list.split)

lemma table_refines_index:
  "res_map (tb_view \<circ> snd) (emplace c v g) = tb_create c (\<lambda>_. v) (tb_view g)"
  "res_map tb_view (modify c i f g) = tb_modify c i f (tb_view g)"
  "res_map tb_view (remove i g) = tb_remove i (tb_view g)"
  by (auto simp: res_map_def tb_view_def emplace_def modify_def remove_def tb_create_def tb_modify_def
      tb_remove_def Let_def split: option.splits)

lemma fm_update_append:
  assumes "\<forall>i w. (i, w) \<in> set m \<longrightarrow> i < (k::nat)" shows "fm_update k v m = m @ [(k, v)]"
  using assms by (induction m) (auto simp: all_conj_distrib)

lemma sum_fm_update:
  assumes "fm_sorted m" "map_of m k = Some w"
  shows "sum_list (map (\<lambda>r. f (snd r)) (fm_update k v m)) = sum_list (map (\<lambda>r. f (snd r)) m) - f w + (f v :: int)"
  using assms
proof (induction m)
  case (Cons r m)
  have "map_of m k = None" if "k < fst r"
    using Cons.prems(1) that by (auto simp: fm_sorted_def map_of_eq_None_iff)
  with Cons show ?case by (cases r) (auto simp: fm_sorted_def split: if_splits)
qed simp

lemma sum_fm_erase:
  assumes "fm_sorted m" "map_of m k = Some w"
  shows "sum_list (map (\<lambda>r. f (snd r)) (fm_erase k m)) = sum_list (map (\<lambda>r. f (snd r)) m) - (f w :: int)"
proof -
  have "distinct (map fst m)" using assms(1) by (rule fm_sorted_distinct)
  then show ?thesis using assms(2)
  proof (induction m)
    case (Cons r m)
    have "fm_erase k m = m" if "fst r = k"
      using Cons.prems(1) that by (auto simp: fm_erase_def filter_id_conv image_iff)
    with Cons show ?case by (cases r) (auto simp: fm_erase_def)
  qed simp
qed

lemma tb_wf_map_of: "tb_wf c t \<Longrightarrow> (i, v) \<in> set (tb_rows t) \<longleftrightarrow> map_of (tb_rows t) i = Some v"
  by (simp add: tb_wf_def fm_sorted_distinct)

lemma tb_wf_sorted: "tb_wf c t \<Longrightarrow> fm_sorted (tb_rows t)"
  by (simp add: tb_wf_def)

lemma tb_find_Some:
  assumes "tb_wf c t" "tb_find p t = Some (i, v)"
  shows "map_of (tb_rows t) i = Some v" "p v"
proof -
  have "(i, v) \<in> set (tb_rows t) \<and> p v"
    using assms(2) by (auto simp: tb_find_def find_Some_iff) (metis nth_mem snd_conv)+
  then show "map_of (tb_rows t) i = Some v" "p v" by (simp_all add: tb_wf_map_of[OF assms(1)])
qed

lemma tb_get_Inr:
  assumes "tb_wf c t" "tb_get p t = Inr (i, v)"
  shows "map_of (tb_rows t) i = Some v" "p v"
  using assms tb_find_Some[OF assms(1), of p i v] by (auto simp: tb_get_def result_simps)

lemma tb_create_Inr:
  assumes "tb_wf c t" "tb_create c mk t = Inr t'"
  shows "tb_rows t' = tb_rows t @ [(tb_next t, mk (tb_next t))]" "tb_next t' = tb_next t + 1"
    "insertable c (tb_next t) (mk (tb_next t)) (tb_rows t)"
  using assms fm_update_append[of "tb_rows t" "tb_next t"]
  by (auto simp: tb_create_def tb_wf_def Let_def split: if_splits)

lemma tb_modify_Inr:
  assumes "tb_modify c i f t = Inr t'"
  obtains v where "map_of (tb_rows t) i = Some v" "insertable c i (f v) (tb_rows t)"
    "tb_rows t' = fm_update i (f v) (tb_rows t)" "tb_next t' = tb_next t"
  using assms by (auto simp: tb_modify_def split: option.splits if_splits)

lemma tb_remove_Inr:
  assumes "tb_remove i t = Inr t'"
  obtains v where "map_of (tb_rows t) i = Some v" "tb_rows t' = fm_erase i (tb_rows t)" "tb_next t' = tb_next t"
  using assms by (auto simp: tb_remove_def split: option.splits)

lemma tb_sum_create:
  "tb_wf c t \<Longrightarrow> tb_create c mk t = Inr t' \<Longrightarrow> tb_sum f t' = tb_sum f t + f (mk (tb_next t))"
  by (simp add: tb_sum_def tb_create_Inr(1))

lemma tb_sum_modify:
  assumes "tb_wf c t" "tb_modify c i g t = Inr t'" "map_of (tb_rows t) i = Some v"
  shows "tb_sum f t' = tb_sum f t - f v + f (g v)"
  using assms sum_fm_update[OF tb_wf_sorted[OF assms(1)] assms(3), of f "g v"]
  by (auto simp: tb_sum_def elim!: tb_modify_Inr)

lemma tb_sum_remove:
  assumes "tb_wf c t" "tb_remove i t = Inr t'" "map_of (tb_rows t) i = Some v"
  shows "tb_sum f t' = tb_sum f t - f v"
  using assms sum_fm_erase[OF tb_wf_sorted[OF assms(1)] assms(3), of f]
  by (auto simp: tb_sum_def elim!: tb_remove_Inr)

lemma set_fm_update:
  "fm_sorted m \<Longrightarrow> set (fm_update k v m) = insert (k, v) {r \<in> set m. fst r \<noteq> (k::nat)}"
proof (induction m)
  case (Cons r m)
  have "\<forall>r'\<in>set m. fst r < fst r'" "fm_sorted m" using Cons.prems by (auto simp: fm_sorted_def)
  then show ?case using Cons.IH by (cases r) force
qed simp

lemma tb_wf_create:
  assumes "tb_wf c t" "tb_create c mk t = Inr t'" "\<And>x y. c x y = c y x"
  shows "tb_wf c t'"
proof -
  note cr = tb_create_Inr[OF assms(1,2)]
  have "fm_sorted (tb_rows t')"
    using assms(1) unfolding cr by (auto simp: tb_wf_def fm_sorted_def sorted_wrt_append)
  moreover have "\<not> c (mk (tb_next t)) (snd r)" if "r \<in> set (tb_rows t)" for r
    using that cr(3) assms(1) by (fastforce simp: insertable_def list_all_iff tb_wf_def)
  ultimately show ?thesis using assms(1) cr assms(3)
    by (auto simp: tb_wf_def less_Suc_eq)
qed

lemma tb_wf_modify:
  assumes "tb_wf c t" "tb_modify c i f t = Inr t'" "\<And>x y. c x y = c y x"
  shows "tb_wf c t'"
proof -
  obtain v where v: "map_of (tb_rows t) i = Some v" "insertable c i (f v) (tb_rows t)"
    "tb_rows t' = fm_update i (f v) (tb_rows t)" "tb_next t' = tb_next t"
    using assms(2) by (rule tb_modify_Inr)
  have s: "set (tb_rows t') = insert (i, f v) {r \<in> set (tb_rows t). fst r \<noteq> i}"
    using assms(1) by (simp add: v set_fm_update tb_wf_sorted)
  have "fm_sorted (tb_rows t')" using assms(1) v(3) by (simp add: fm_sorted_update tb_wf_sorted)
  moreover have "i < tb_next t" using v(1) assms(1) map_of_SomeD by (fastforce simp: tb_wf_def)
  moreover have "\<not> c (f v) (snd r)" if "r \<in> set (tb_rows t)" "fst r \<noteq> i" for r
    using that v(2) by (auto simp: insertable_def list_all_iff)
  ultimately show ?thesis using assms(1,3) v(4) unfolding tb_wf_def s by auto
qed

lemma tb_wf_remove:
  assumes "tb_wf c t" "tb_remove i t = Inr t'"
  shows "tb_wf c t'"
proof -
  obtain v where v: "map_of (tb_rows t) i = Some v" "tb_rows t' = fm_erase i (tb_rows t)" "tb_next t' = tb_next t"
    using assms(2) by (rule tb_remove_Inr)
  have "set (tb_rows t') \<subseteq> set (tb_rows t)" by (auto simp: v fm_erase_def)
  moreover have "fm_sorted (tb_rows t')" using assms(1) by (simp add: v fm_sorted_erase tb_wf_sorted)
  ultimately show ?thesis using assms(1) v(3) unfolding tb_wf_def by auto blast+
qed

lemma tb_wf_empty [simp]: "tb_wf c tb_empty"
  by (simp add: tb_wf_def tb_empty_def fm_sorted_def)

lemma tb_all_create:
  assumes "tb_wf c t" "tb_create c mk t = Inr t'"
  shows "tb_all p t' \<longleftrightarrow> tb_all p t \<and> p (mk (tb_next t))"
  by (simp add: tb_all_def tb_create_Inr(1)[OF assms])

lemma tb_all_modify:
  assumes "tb_wf c t" "tb_modify c i f t = Inr t'" "map_of (tb_rows t) i = Some v" "tb_all p t" "p (f v)"
  shows "tb_all p t'"
  using assms(2-) set_fm_update[OF tb_wf_sorted[OF assms(1)], of i]
  by (auto simp: tb_all_def list_all_iff elim!: tb_modify_Inr)

lemma tb_all_remove: "tb_remove i t = Inr t' \<Longrightarrow> tb_all p t \<Longrightarrow> tb_all p t'"
  by (auto simp: tb_all_def list_all_iff fm_erase_def elim!: tb_remove_Inr)

lemma tb_allD: "tb_all p t \<Longrightarrow> map_of (tb_rows t) i = Some v \<Longrightarrow> p v"
  using map_of_SomeD[of "tb_rows t" i v] by (auto simp: tb_all_def list_all_iff)

locale keyed_table =
  fixes conflict :: "'v conflict" and key :: "'v \<Rightarrow> 'k"
  assumes conflict_key: "conflict a b \<longleftrightarrow> key a = key b"
begin

lemma sym_conflict: "conflict a b = conflict b a"
  by (auto simp: conflict_key)

lemmas wf_create = tb_wf_create[OF _ _ sym_conflict]
lemmas wf_modify = tb_wf_modify[OF _ _ sym_conflict]

lemma find_unique:
  assumes "tb_wf conflict t" "map_of (tb_rows t) i = Some v"
  shows "tb_find (\<lambda>w. key w = key v) t = Some (i, v)"
proof (cases "tb_find (\<lambda>w. key w = key v) t")
  case None
  then show ?thesis using map_of_SomeD[OF assms(2)] by (auto simp: tb_find_def find_None_iff)
next
  case (Some r)
  obtain j w where r: "r = (j, w)" by (cases r)
  note jw = tb_find_Some[OF assms(1) Some[unfolded r]]
  have "i = j" using assms(1) jw map_of_SomeD[OF assms(2)] map_of_SomeD[OF jw(1)]
    by (force simp: tb_wf_def conflict_key)
  then show ?thesis using jw(1) assms(2) Some r by simp
qed

lemma find_created:
  assumes "tb_wf conflict t" "tb_create conflict mk t = Inr t'" "key (mk (tb_next t)) = k"
  shows "tb_find (\<lambda>w. key w = k) t' = Some (tb_next t, mk (tb_next t))"
proof -
  have w: "tb_wf conflict t'" using wf_create[OF assms(1,2)] .
  have "(tb_next t, mk (tb_next t)) \<in> set (tb_rows t')" by (simp add: tb_create_Inr(1)[OF assms(1,2)])
  then show ?thesis using find_unique[OF w] tb_wf_map_of[OF w] assms(3) by blast
qed

lemma create_iff_new:
  assumes "tb_wf conflict t"
  shows "is_ok (tb_create conflict mk t) \<longleftrightarrow> tb_find (\<lambda>w. key w = key (mk (tb_next t))) t = None"
proof -
  have n: "map_of (tb_rows t) (tb_next t) = None"
    using assms by (auto simp: tb_wf_def map_of_eq_None_iff)
  have "insertable conflict (tb_next t) v (tb_rows t) \<longleftrightarrow> (\<forall>r\<in>set (tb_rows t). key v \<noteq> key (snd r))" for v
    using assms by (fastforce simp: insertable_def list_all_iff conflict_key tb_wf_def)
  then show ?thesis unfolding tb_create_def Let_def n tb_find_def find_None_iff by (simp add: is_ok_iff Bex_def eq_commute)
qed

lemma find_modified:
  assumes "tb_wf conflict t" "tb_modify conflict i f t = Inr t'" "map_of (tb_rows t) i = Some v" "key (f v) = key v"
  shows "tb_find (\<lambda>w. key w = k) t' = (if k = key v then Some (i, f v) else tb_find (\<lambda>w. key w = k) t)"
proof -
  have w: "tb_wf conflict t'" using wf_modify[OF assms(1,2)] .
  have r: "tb_rows t' = fm_update i (f v) (tb_rows t)" using assms(2,3) by (auto elim!: tb_modify_Inr)
  then have m: "map_of (tb_rows t') i = Some (f v)" by simp
  show ?thesis
  proof (cases "k = key v")
    case True then show ?thesis using find_unique[OF w m] assms(4) by simp
  next
    case False
    show ?thesis
    proof (cases "tb_find (\<lambda>w. key w = k) t")
      case None
      then have "\<forall>r\<in>set (tb_rows t'). key (snd r) \<noteq> k"
        using False assms(4) unfolding r set_fm_update[OF tb_wf_sorted[OF assms(1)]]
        by (auto simp: tb_find_def find_None_iff)
      then have "tb_find (\<lambda>w. key w = k) t' = None" unfolding tb_find_def find_None_iff by blast
      then show ?thesis using None False by simp
    next
      case (Some x)
      obtain j u where x: "x = (j, u)" by (cases x)
      note ju = tb_find_Some[OF assms(1) Some[unfolded x]]
      then have "j \<noteq> i" using False assms(3) by auto
      then have "map_of (tb_rows t') j = Some u" using ju(1) r by simp
      then show ?thesis using find_unique[OF w, of j u] ju(2) False Some x by simp
    qed
  qed
qed

end

interpretation wallet_table: keyed_table same_wallet wa_name
  by unfold_locales (simp add: same_wallet_def)

interpretation escrow_table: keyed_table same_escrow "\<lambda>e. (es_from e, es_escrow_id e)"
  by unfold_locales (auto simp: same_escrow_def)

interpretation balance_table: keyed_table same_balance "\<lambda>b. (bal_name b, symbol (liquid b))"
  by unfold_locales (auto simp: same_balance_def)

interpretation token_table: keyed_table same_token liquid_symbol
  by unfold_locales (simp add: same_token_def)

interpretation ico_table: keyed_table same_ico ico_symbol
  by unfold_locales (simp add: same_ico_def)

interpretation contribution_table: keyed_table same_contribution "\<lambda>c. (ctb_symbol c, ctb_contributor c, ctb_contribution_id c)"
  by unfold_locales (auto simp: same_contribution_def)

interpretation comment_table: keyed_table same_comment "\<lambda>c. (author c, c_str (permlink c))"
  by unfold_locales (auto simp: same_comment_def)

interpretation witness_table: keyed_table same_witness ws_owner
  by unfold_locales (simp add: same_witness_def)

end
