(* ===== verification/Ledger.thy ===== *)
theory Ledger
  imports Chain_Objects
begin

text \<open>
  The ledger: the balance functions of \<open>libraries/chain/database.cpp\<close>.  XGT is kept in the
  wallet objects, every token in balance objects of its own, and what the null wallet
  receives of a token is taken from the supply.  The lemmas show that an adjustment changes
  the total by exactly the amount, or throws, and never leaves a negative balance.
\<close>

section \<open>Changing one table\<close>

definition on_wallets where "on_wallets f db = res_bind (f (wallets db)) (\<lambda>t. Inr (db\<lparr>wallets := t\<rparr>))"

definition on_metadata where "on_metadata f db = res_bind (f (metadata db)) (\<lambda>t. Inr (db\<lparr>metadata := t\<rparr>))"

definition on_authorities where "on_authorities f db = res_bind (f (authorities db)) (\<lambda>t. Inr (db\<lparr>authorities := t\<rparr>))"

definition on_recovery_history where "on_recovery_history f db = res_bind (f (recovery_history db)) (\<lambda>t. Inr (db\<lparr>recovery_history := t\<rparr>))"

definition on_witnesses where "on_witnesses f db = res_bind (f (witnesses db)) (\<lambda>t. Inr (db\<lparr>witnesses := t\<rparr>))"

definition on_comments where "on_comments f db = res_bind (f (comments db)) (\<lambda>t. Inr (db\<lparr>comments := t\<rparr>))"

definition on_contents where "on_contents f db = res_bind (f (comment_contents db)) (\<lambda>t. Inr (db\<lparr>comment_contents := t\<rparr>))"

definition on_escrows where "on_escrows f db = res_bind (f (escrows db)) (\<lambda>t. Inr (db\<lparr>escrows := t\<rparr>))"

definition on_balances where "on_balances f db = res_bind (f (balances db)) (\<lambda>t. Inr (db\<lparr>balances := t\<rparr>))"

definition on_tokens where "on_tokens f db = res_bind (f (tokens db)) (\<lambda>t. Inr (db\<lparr>tokens := t\<rparr>))"

definition on_icos where "on_icos f db = res_bind (f (icos db)) (\<lambda>t. Inr (db\<lparr>icos := t\<rparr>))"

definition on_ico_tiers where "on_ico_tiers f db = res_bind (f (ico_tiers db)) (\<lambda>t. Inr (db\<lparr>ico_tiers := t\<rparr>))"

definition on_contributions where "on_contributions f db = res_bind (f (contributions db)) (\<lambda>t. Inr (db\<lparr>contributions := t\<rparr>))"

definition on_contracts where "on_contracts f db = res_bind (f (contracts db)) (\<lambda>t. Inr (db\<lparr>contracts := t\<rparr>))"

definition on_required_actions where "on_required_actions f db = res_bind (f (required_actions db)) (\<lambda>t. Inr (db\<lparr>required_actions := t\<rparr>))"

definition on_transactions where "on_transactions f db = res_bind (f (recent_transactions db)) (\<lambda>t. Inr (db\<lparr>recent_transactions := t\<rparr>))"

section \<open>Balances\<close>

definition find_balance :: "chain_db \<Rightarrow> wallet_name \<Rightarrow> asset_symbol_type \<Rightarrow> (nat \<times> account_regular_balance_object) option" where
  "find_balance db name s = tb_find (\<lambda>b. (bal_name b, symbol (liquid b)) = (name, s)) (balances db)"

definition xtt_balance :: "chain_db \<Rightarrow> wallet_name \<Rightarrow> asset_symbol_type \<Rightarrow> asset" where
  "xtt_balance db name s = (case find_balance db name s of None \<Rightarrow> \<lparr>amount = 0, symbol = s\<rparr> | Some (i, b) \<Rightarrow> liquid b)"

definition get_balance_of :: "chain_db \<Rightarrow> wallet_object \<Rightarrow> asset_symbol_type \<Rightarrow> asset result" where
  "get_balance_of db w s =
    (if asset_num s = XGT_ASSET_NUM_XGT then Inr (wa_balance w)
     else if space s \<noteq> Xtt_Nai_Space then Inl (Assert_Exception ''Invalid symbol'')
     else Inr (xtt_balance db (wa_name w) s))"

definition get_balance :: "chain_db \<Rightarrow> wallet_name \<Rightarrow> asset_symbol_type \<Rightarrow> asset result" where
  "get_balance db name s =
    (if space s = Xtt_Nai_Space then Inr (xtt_balance db name s)
     else res_bind (get_account db name) (\<lambda>(i, w). get_balance_of db w s))"

definition adjust_xtt_balance :: "wallet_name \<Rightarrow> asset \<Rightarrow> bool \<Rightarrow> chain_db \<Rightarrow> chain_db result" where
  "adjust_xtt_balance name delta check_account db = (case find_balance db name (symbol delta) of
      None \<Rightarrow>
        res_bind (fc_assert (amount delta \<ge> 0) ''Insufficient XTT funds'') (\<lambda>_.
        if amount delta = 0 then Inr db else
        res_bind (if check_account then res_bind (get_account db name) (\<lambda>_. Inr ()) else Inr ()) (\<lambda>_.
        let b = (initialize_assets (symbol delta) balance_default)\<lparr>bal_name := name\<rparr> in
        res_bind (asset_add (liquid b) delta) (\<lambda>l.
          on_balances (tb_create same_balance (\<lambda>_. b\<lparr>liquid := l\<rparr>)) db)))
    | Some (i, b) \<Rightarrow>
        res_bind (asset_add (liquid b) delta) (\<lambda>l.
        res_bind (fc_assert (amount l \<ge> 0) ''Insufficient XTT funds'') (\<lambda>_.
          on_balances (tb_modify same_balance i (\<lambda>b. b\<lparr>liquid := l\<rparr>)) db)))"

definition modify_balance :: "nat \<times> wallet_object \<Rightarrow> asset \<Rightarrow> bool \<Rightarrow> chain_db \<Rightarrow> chain_db result" where
  "modify_balance a delta check_balance db =
    (if asset_num (symbol delta) = XGT_ASSET_NUM_XGT then
       res_bind (asset_add (wa_balance (snd a)) delta) (\<lambda>b.
       res_bind (if check_balance then fc_assert (amount b \<ge> 0) ''Insufficient XGT funds'' else Inr ()) (\<lambda>_.
         on_wallets (tb_modify same_wallet (fst a) (\<lambda>w. w\<lparr>wa_balance := b\<rparr>)) db))
     else Inl (Assert_Exception ''invalid symbol''))"

definition adjust_supply :: "asset \<Rightarrow> chain_db \<Rightarrow> chain_db result" where
  "adjust_supply delta db =
    (if space (symbol delta) = Xtt_Nai_Space then
       res_bind (res_of_option Out_Of_Range_Exception (find_token_by_symbol db (symbol delta))) (\<lambda>(i, xtt).
       res_bind (safe_add (tk_current_supply xtt) (amount delta)) (\<lambda>new_supply.
       res_bind (fc_assert (new_supply \<ge> 0) []) (\<lambda>_.
         on_tokens (tb_modify same_token i (\<lambda>t. t\<lparr>tk_current_supply := new_supply\<rparr>)) db)))
     else Inr db)"

text \<open>The check of the funds and the choice of the account are common to the two forms of
  \<open>adjust_balance\<close>, by wallet object and by name.\<close>

definition check_funds :: "asset \<Rightarrow> asset result \<Rightarrow> unit result" where
  "check_funds delta bal =
    (if amount delta < 0 then
       res_bind bal (\<lambda>available. res_bind (asset_neg delta) (\<lambda>needed.
       res_bind (asset_greater_eq available needed) (\<lambda>ok.
         fc_assert ok ''Account does not have sufficient funds for balance adjustment.'')))
     else Inr ())"

definition adjust_token :: "wallet_name \<Rightarrow> asset \<Rightarrow> chain_db \<Rightarrow> chain_db result" where
  "adjust_token name delta db =
    (if name = XGT_NULL_WALLET then res_bind (asset_neg delta) (\<lambda>d. adjust_supply d db)
     else adjust_xtt_balance name delta False db)"

definition adjust_balance_of :: "nat \<times> wallet_object \<Rightarrow> asset \<Rightarrow> chain_db \<Rightarrow> chain_db result" where
  "adjust_balance_of a delta db =
    res_bind (check_funds delta (get_balance_of db (snd a) (symbol delta))) (\<lambda>_.
      if space (symbol delta) = Xtt_Nai_Space then adjust_token (wa_name (snd a)) delta db
      else modify_balance a delta True db)"

definition adjust_balance :: "wallet_name \<Rightarrow> asset \<Rightarrow> chain_db \<Rightarrow> chain_db result" where
  "adjust_balance name delta db =
    res_bind (check_funds delta (get_balance db name (symbol delta))) (\<lambda>_.
      if space (symbol delta) = Xtt_Nai_Space then adjust_token name delta db
      else res_bind (get_account db name) (\<lambda>a. modify_balance a delta True db))"

definition clear_null_wallet_balance :: "chain_db \<Rightarrow> chain_db result" where
  "clear_null_wallet_balance db =
    res_bind (get_account db XGT_NULL_WALLET) (\<lambda>(i, null_account).
    let total_xgt = (if amount (wa_balance null_account) > 0 then wa_balance null_account else asset_default) in
    if amount total_xgt = 0 then Inr db else
    res_bind (on_wallets (tb_modify same_wallet i (\<lambda>w. w\<lparr>wa_balance := (wa_balance w)\<lparr>amount := 0\<rparr>\<rparr>)) db) (\<lambda>db.
    res_bind (asset_neg total_xgt) (\<lambda>d. adjust_supply d db)))"

section \<open>Reference\<close>

definition xgt_amount :: "asset \<Rightarrow> bool" where
  "xgt_amount a \<longleftrightarrow> symbol a = XGT_SYMBOL \<and> 0 \<le> amount a"

definition wallets_ok :: "chain_db \<Rightarrow> bool" where
  "wallets_ok db \<longleftrightarrow> tb_wf same_wallet (wallets db) \<and> tb_all (\<lambda>w. xgt_amount (wa_balance w)) (wallets db)"

definition tokens_ok :: "chain_db \<Rightarrow> bool" where
  "tokens_ok db \<longleftrightarrow> tb_wf same_token (tokens db) \<and> tb_wf same_balance (balances db)
     \<and> tb_all (\<lambda>b. space (symbol (liquid b)) = Xtt_Nai_Space \<and> 0 \<le> amount (liquid b)
          \<and> bal_name b \<noteq> XGT_NULL_WALLET) (balances db)"

definition wallet_total :: "chain_db \<Rightarrow> int" where
  "wallet_total db = tb_sum (\<lambda>w. amount (wa_balance w)) (wallets db)"

definition held :: "asset_symbol_type \<Rightarrow> chain_db \<Rightarrow> int" where
  "held s db = tb_sum (\<lambda>b. if symbol (liquid b) = s then amount (liquid b) else 0) (balances db)"

definition token_supply :: "asset_symbol_type \<Rightarrow> chain_db \<Rightarrow> int" where
  "token_supply s db = (case find_token_by_symbol db s of None \<Rightarrow> 0 | Some (i, t) \<Rightarrow> tk_current_supply t)"

section \<open>Reference definitions\<close>

definition ledger_ok :: "chain_db \<Rightarrow> bool" where
  "ledger_ok db \<longleftrightarrow> wallets_ok db \<and> tokens_ok db"

definition net_held :: "asset_symbol_type \<Rightarrow> chain_db \<Rightarrow> int" where
  "net_held s db = (if s = XGT_SYMBOL then wallet_total db else held s db - token_supply s db)"

definition adjust_changes :: "asset \<Rightarrow> chain_db \<Rightarrow> chain_db \<Rightarrow> bool" where
  "adjust_changes delta db db' \<longleftrightarrow> ledger_ok db'
     \<and> (\<exists>w b t. db' = db\<lparr>wallets := w, balances := b, tokens := t\<rparr>)
     \<and> (\<forall>s. net_held s db' = net_held s db + (if s = symbol delta then amount delta else 0))"

lemma on_table_Inr [result_simps]:
  "on_wallets f1 db = Inr db' \<longleftrightarrow> (\<exists>t. f1 (wallets db) = Inr t \<and> db' = db\<lparr>wallets := t\<rparr>)"
  "on_metadata f2 db = Inr db' \<longleftrightarrow> (\<exists>t. f2 (metadata db) = Inr t \<and> db' = db\<lparr>metadata := t\<rparr>)"
  "on_authorities f3 db = Inr db' \<longleftrightarrow> (\<exists>t. f3 (authorities db) = Inr t \<and> db' = db\<lparr>authorities := t\<rparr>)"
  "on_recovery_history f4 db = Inr db' \<longleftrightarrow> (\<exists>t. f4 (recovery_history db) = Inr t \<and> db' = db\<lparr>recovery_history := t\<rparr>)"
  "on_witnesses f5 db = Inr db' \<longleftrightarrow> (\<exists>t. f5 (witnesses db) = Inr t \<and> db' = db\<lparr>witnesses := t\<rparr>)"
  "on_comments f6 db = Inr db' \<longleftrightarrow> (\<exists>t. f6 (comments db) = Inr t \<and> db' = db\<lparr>comments := t\<rparr>)"
  "on_contents f7 db = Inr db' \<longleftrightarrow> (\<exists>t. f7 (comment_contents db) = Inr t \<and> db' = db\<lparr>comment_contents := t\<rparr>)"
  "on_escrows f8 db = Inr db' \<longleftrightarrow> (\<exists>t. f8 (escrows db) = Inr t \<and> db' = db\<lparr>escrows := t\<rparr>)"
  "on_balances f9 db = Inr db' \<longleftrightarrow> (\<exists>t. f9 (balances db) = Inr t \<and> db' = db\<lparr>balances := t\<rparr>)"
  "on_tokens f10 db = Inr db' \<longleftrightarrow> (\<exists>t. f10 (tokens db) = Inr t \<and> db' = db\<lparr>tokens := t\<rparr>)"
  "on_icos f11 db = Inr db' \<longleftrightarrow> (\<exists>t. f11 (icos db) = Inr t \<and> db' = db\<lparr>icos := t\<rparr>)"
  "on_ico_tiers f12 db = Inr db' \<longleftrightarrow> (\<exists>t. f12 (ico_tiers db) = Inr t \<and> db' = db\<lparr>ico_tiers := t\<rparr>)"
  "on_contributions f13 db = Inr db' \<longleftrightarrow> (\<exists>t. f13 (contributions db) = Inr t \<and> db' = db\<lparr>contributions := t\<rparr>)"
  "on_contracts f14 db = Inr db' \<longleftrightarrow> (\<exists>t. f14 (contracts db) = Inr t \<and> db' = db\<lparr>contracts := t\<rparr>)"
  "on_required_actions f15 db = Inr db' \<longleftrightarrow> (\<exists>t. f15 (required_actions db) = Inr t \<and> db' = db\<lparr>required_actions := t\<rparr>)"
  "on_transactions f16 db = Inr db' \<longleftrightarrow> (\<exists>t. f16 (recent_transactions db) = Inr t \<and> db' = db\<lparr>recent_transactions := t\<rparr>)"
  by (auto simp: result_simps on_wallets_def on_metadata_def on_authorities_def on_recovery_history_def on_witnesses_def
      on_comments_def on_contents_def on_escrows_def on_balances_def on_tokens_def on_icos_def on_ico_tiers_def
      on_contributions_def on_contracts_def on_required_actions_def on_transactions_def)

lemma safe_add_Inr: "safe_add a b = Inr c \<Longrightarrow> c = a + b"
  by (auto simp: safe_add_def split: if_splits)

lemma safe_sub_Inr: "safe_sub a b = Inr c \<Longrightarrow> c = a - b"
  by (auto simp: safe_sub_def split: if_splits)

lemma asset_add_Inr:
  "asset_add a b = Inr c \<Longrightarrow> symbol b = symbol a \<and> symbol c = symbol a \<and> amount c = amount a + amount b"
  by (auto simp: asset_add_def asset_lift_def result_simps dest: safe_add_Inr split: if_splits)

lemma asset_sub_Inr:
  "asset_sub a b = Inr c \<Longrightarrow> symbol b = symbol a \<and> symbol c = symbol a \<and> amount c = amount a - amount b"
  by (auto simp: asset_sub_def asset_lift_def result_simps dest: safe_sub_Inr split: if_splits)

lemma asset_neg_Inr: "asset_neg a = Inr c \<Longrightarrow> symbol c = symbol a \<and> amount c = - amount a"
  by (auto simp: asset_neg_def safe_neg_def result_simps split: if_splits)

lemma space_legacy_iff: "space s = Xtt_Nai_Space \<longleftrightarrow> s \<noteq> XGT_SYMBOL" "asset_num s = XGT_ASSET_NUM_XGT \<longleftrightarrow> s = XGT_SYMBOL"
  "asset_num s = 3200000040 \<longleftrightarrow> s = XGT_SYMBOL"
  by (auto simp: space_def XGT_SYMBOL_def from_asset_num_def)

lemma modify_balance_total:
  assumes ok: "wallets_ok db" and a: "map_of (tb_rows (wallets db)) i = Some w"
    and m: "modify_balance (i, w) delta True db = Inr db'"
  shows "\<exists>t. db' = db\<lparr>wallets := t\<rparr> \<and> wallets_ok db' \<and> wallet_total db' = wallet_total db + amount delta"
proof -
  obtain b t where b: "asset_add (wa_balance w) delta = Inr b" "amount b \<ge> 0"
    and t: "tb_modify same_wallet i (\<lambda>w. w\<lparr>wa_balance := b\<rparr>) (wallets db) = Inr t" and db': "db' = db\<lparr>wallets := t\<rparr>"
    using m by (auto simp: modify_balance_def result_simps split: if_splits)
  have wf: "tb_wf same_wallet (wallets db)" and all: "tb_all (\<lambda>w. xgt_amount (wa_balance w)) (wallets db)"
    using ok by (simp_all add: wallets_ok_def)
  note b' = asset_add_Inr[OF b(1)]
  have "xgt_amount b" using b' b(2) tb_allD[OF all a] by (simp add: xgt_amount_def)
  then have "wallets_ok db'"
    using wallet_table.wf_modify[OF wf t] tb_all_modify[OF wf t a all] by (simp add: wallets_ok_def db')
  moreover have "wallet_total db' = wallet_total db + amount delta"
    using tb_sum_modify[OF wf t a, of "\<lambda>w. amount (wa_balance w)"] b' by (simp add: wallet_total_def db')
  ultimately show ?thesis using db' by blast
qed

lemma held_balances_update [simp]: "held s (db\<lparr>tokens := t\<rparr>) = held s db"
  by (simp add: held_def)

lemma token_supply_update [simp]: "token_supply s (db\<lparr>balances := t\<rparr>) = token_supply s db"
  by (simp add: token_supply_def find_token_by_symbol_def)

lemma adjust_supply_total:
  assumes ok: "tokens_ok db" and s: "symbol delta \<noteq> XGT_SYMBOL" and m: "adjust_supply delta db = Inr db'"
  shows "\<exists>t. db' = db\<lparr>tokens := t\<rparr> \<and> tokens_ok db'
    \<and> (\<forall>s. token_supply s db' = token_supply s db + (if s = symbol delta then amount delta else 0))"
proof -
  obtain i xtt t where f: "find_token_by_symbol db (symbol delta) = Some (i, xtt)"
    and t: "tb_modify same_token i (\<lambda>t. t\<lparr>tk_current_supply := tk_current_supply xtt + amount delta\<rparr>) (tokens db) = Inr t"
    and db': "db' = db\<lparr>tokens := t\<rparr>"
    using m s by (auto simp: adjust_supply_def space_legacy_iff result_simps split: if_splits dest!: safe_add_Inr)
  have wf: "tb_wf same_token (tokens db)" using ok by (simp add: tokens_ok_def)
  note x = tb_find_Some[OF wf f[unfolded find_token_by_symbol_def]]
  have "tokens_ok db'" using ok token_table.wf_modify[OF wf t] by (simp add: tokens_ok_def db')
  moreover have "token_supply s db' = token_supply s db + (if s = symbol delta then amount delta else 0)" for s
    using token_table.find_modified[OF wf t x(1), of s] x(2) f by (simp add: token_supply_def find_token_by_symbol_def db')
  ultimately show ?thesis using db' by blast
qed

lemma adjust_xtt_balance_total:
  assumes ok: "tokens_ok db" and s: "symbol delta \<noteq> XGT_SYMBOL" "name \<noteq> XGT_NULL_WALLET"
    and m: "adjust_xtt_balance name delta False db = Inr db'"
  shows "\<exists>t. db' = db\<lparr>balances := t\<rparr> \<and> tokens_ok db'
    \<and> (\<forall>s. held s db' = held s db + (if s = symbol delta then amount delta else 0))"
proof (cases "find_balance db name (symbol delta)")
  case None
  show ?thesis
  proof (cases "amount delta = 0")
    case True
    then have "db' = db" using m None by (auto simp: adjust_xtt_balance_def result_simps)
    then have "db' = db\<lparr>balances := balances db\<rparr>" by simp
    then show ?thesis using True ok by fastforce
  next
    case False
    then obtain l t where l: "asset_add \<lparr>amount = 0, symbol = symbol delta\<rparr> delta = Inr l" "amount delta \<ge> 0"
      and t: "tb_create same_balance (\<lambda>_. balance_default\<lparr>bal_name := name, liquid := l\<rparr>) (balances db) = Inr t"
      and db': "db' = db\<lparr>balances := t\<rparr>"
      using m None by (auto simp: adjust_xtt_balance_def initialize_assets_def result_simps Let_def split: if_splits)
    have wf: "tb_wf same_balance (balances db)" using ok by (simp add: tokens_ok_def)
    note l' = asset_add_Inr[OF l(1)]
    have "tokens_ok db'" using ok balance_table.wf_create[OF wf t] tb_all_create[OF wf t] l l' s
      by (simp add: tokens_ok_def db' space_legacy_iff)
    moreover have "held s db' = held s db + (if s = symbol delta then amount delta else 0)" for s
      using tb_sum_create[OF wf t, of "\<lambda>b. if symbol (liquid b) = s then amount (liquid b) else 0"] l'
      by (simp add: held_def db')
    ultimately show ?thesis using db' by blast
  qed
next
  case (Some r)
  obtain i b where r: "r = (i, b)" by (cases r)
  obtain l t where l: "asset_add (liquid b) delta = Inr l" "amount l \<ge> 0"
    and t: "tb_modify same_balance i (\<lambda>b. b\<lparr>liquid := l\<rparr>) (balances db) = Inr t" and db': "db' = db\<lparr>balances := t\<rparr>"
    using m Some r by (auto simp: adjust_xtt_balance_def result_simps split: if_splits)
  have wf: "tb_wf same_balance (balances db)"
    and all: "tb_all (\<lambda>b. space (symbol (liquid b)) = Xtt_Nai_Space \<and> 0 \<le> amount (liquid b) \<and> bal_name b \<noteq> XGT_NULL_WALLET) (balances db)"
    using ok by (simp_all add: tokens_ok_def)
  note x = tb_find_Some[OF wf Some[unfolded find_balance_def r]]
  note l' = asset_add_Inr[OF l(1)]
  have "tokens_ok db'" using ok balance_table.wf_modify[OF wf t] tb_all_modify[OF wf t x(1) all] l l' s tb_allD[OF all x(1)]
    by (simp add: tokens_ok_def db' space_legacy_iff)
  moreover have "held s db' = held s db + (if s = symbol delta then amount delta else 0)" for s
    using tb_sum_modify[OF wf t x(1), of "\<lambda>b. if symbol (liquid b) = s then amount (liquid b) else 0"] l' x(2)
    by (auto simp: held_def db')
  ultimately show ?thesis using db' by blast
qed

lemma ledger_frame [simp]:
  "wallet_total (db\<lparr>balances := b\<rparr>) = wallet_total db" "wallet_total (db\<lparr>tokens := t\<rparr>) = wallet_total db"
  "held s (db\<lparr>wallets := w\<rparr>) = held s db" "token_supply s (db\<lparr>wallets := w\<rparr>) = token_supply s db"
  "wallets_ok (db\<lparr>balances := b\<rparr>) = wallets_ok db" "wallets_ok (db\<lparr>tokens := t\<rparr>) = wallets_ok db"
  "tokens_ok (db\<lparr>wallets := w\<rparr>) = tokens_ok db"
  by (simp_all add: wallet_total_def held_def token_supply_def find_token_by_symbol_def wallets_ok_def tokens_ok_def)

lemma adjust_token_changes:
  assumes ok: "ledger_ok db" and s: "symbol delta \<noteq> XGT_SYMBOL" and m: "adjust_token name delta db = Inr db'"
  shows "adjust_changes delta db db'"
proof (cases "name = XGT_NULL_WALLET")
  case True
  then obtain d where d: "asset_neg delta = Inr d" "adjust_supply d db = Inr db'"
    using m by (auto simp: adjust_token_def result_simps)
  note d' = asset_neg_Inr[OF d(1)]
  obtain t where t: "db' = db\<lparr>tokens := t\<rparr>" "tokens_ok db'"
    "\<forall>s. token_supply s db' = token_supply s db + (if s = symbol d then amount d else 0)"
    using adjust_supply_total[OF _ _ d(2)] ok s d' by (auto simp: ledger_ok_def)
  have "db' = db\<lparr>wallets := wallets db, balances := balances db, tokens := t\<rparr>" using t(1) by simp
  then have "\<exists>w b t. db' = db\<lparr>wallets := w, balances := b, tokens := t\<rparr>" by blast
  then show ?thesis using ok t(2,3) d' s unfolding adjust_changes_def
    by (simp add: ledger_ok_def net_held_def t(1) split del: if_split) simp
next
  case False
  then have a: "adjust_xtt_balance name delta False db = Inr db'" using m by (simp add: adjust_token_def)
  have "tokens_ok db" using ok by (simp add: ledger_ok_def)
  from adjust_xtt_balance_total[OF this s False a] obtain t where t: "db' = db\<lparr>balances := t\<rparr>" "tokens_ok db'"
    "\<forall>s. held s db' = held s db + (if s = symbol delta then amount delta else 0)"
    by blast
  have "db' = db\<lparr>wallets := wallets db, balances := t, tokens := tokens db\<rparr>" using t(1) by simp
  then have "\<exists>w b t. db' = db\<lparr>wallets := w, balances := b, tokens := t\<rparr>" by blast
  then show ?thesis using ok t(2,3) s unfolding adjust_changes_def
    by (simp add: ledger_ok_def net_held_def t(1) split del: if_split) simp
qed

lemma modify_balance_changes:
  assumes ok: "ledger_ok db" and a: "get_account db name = Inr a" and m: "modify_balance a delta True db = Inr db'"
  shows "adjust_changes delta db db'"
proof -
  obtain i w where iw: "a = (i, w)" by (cases a)
  have wf: "tb_wf same_wallet (wallets db)" using ok by (simp add: ledger_ok_def wallets_ok_def)
  note w = tb_get_Inr[OF wf a[unfolded get_account_def iw]]
  have s: "symbol delta = XGT_SYMBOL" using m by (auto simp: modify_balance_def space_legacy_iff split: if_splits)
  obtain t where t: "db' = db\<lparr>wallets := t\<rparr>" "wallets_ok db'" "wallet_total db' = wallet_total db + amount delta"
    using modify_balance_total[OF _ w(1) m[unfolded iw]] ok by (auto simp: ledger_ok_def)
  have "db' = db\<lparr>wallets := t, balances := balances db, tokens := tokens db\<rparr>" using t(1) by simp
  then have "\<exists>w b t. db' = db\<lparr>wallets := w, balances := b, tokens := t\<rparr>" by blast
  then show ?thesis using ok t(2,3) s unfolding adjust_changes_def
    by (simp add: ledger_ok_def net_held_def t(1) split del: if_split) simp
qed

lemma adjust_balance_changes:
  assumes "ledger_ok db" "adjust_balance name delta db = Inr db'"
  shows "adjust_changes delta db db'"
  using assms adjust_token_changes[OF assms(1), of delta name db'] modify_balance_changes[OF assms(1), of name _ delta db']
  by (auto simp: adjust_balance_def result_simps space_legacy_iff split: if_splits)

text \<open>The form of \<open>adjust_balance\<close> that takes a wallet object is the form that takes its name.\<close>

lemma adjust_balance_of_name:
  assumes "get_account db name = Inr a" "wa_name (snd a) = name"
  shows "adjust_balance_of a delta db = adjust_balance name delta db"
  using assms by (auto simp: adjust_balance_of_def adjust_balance_def get_balance_def get_balance_of_def
      space_legacy_iff split: prod.splits)

text \<open>A ledger is a total that every adjustment changes by its amount; what a sender pays a
  receiver leaves it as it is.\<close>

locale ledger =
  fixes inv :: "chain_db \<Rightarrow> bool" and adjust :: "wallet_name \<Rightarrow> asset \<Rightarrow> chain_db \<Rightarrow> chain_db result"
    and total_of :: "asset_symbol_type \<Rightarrow> chain_db \<Rightarrow> int"
  assumes adjust_inv: "inv db \<Longrightarrow> adjust name delta db = Inr db' \<Longrightarrow> inv db'"
    and adjust_total: "inv db \<Longrightarrow> adjust name delta db = Inr db'
      \<Longrightarrow> total_of s db' = total_of s db + (if s = symbol delta then amount delta else 0)"

begin

lemma pay:
  assumes "inv db" "asset_neg x = Inr d" "adjust payer d db = Inr db1" "adjust payee x db1 = Inr db2"
  shows "inv db2 \<and> total_of s db2 = total_of s db"
  using adjust_inv[OF assms(1,3)] adjust_inv[of db1 payee x db2] adjust_total[OF assms(1,3), of s]
    adjust_total[of db1 payee x db2 s] asset_neg_Inr[OF assms(2)] assms(4) by simp

lemma adjust_twice:
  assumes "inv db" "adjust n x db = Inr db1" "adjust m y db1 = Inr db2" "symbol y = symbol x"
  shows "inv db2 \<and> total_of s db2 = total_of s db + (if s = symbol x then amount x + amount y else 0)"
  using adjust_inv[OF assms(1,2)] adjust_inv[of db1 m y db2] adjust_total[OF assms(1,2), of s]
    adjust_total[of db1 m y db2 s] assms(3,4) by simp

end

interpretation xgt_ledger: ledger ledger_ok adjust_balance net_held
  using adjust_balance_changes by unfold_locales (auto simp: adjust_changes_def)

text \<open>A negative adjustment succeeds exactly when the funds are there.\<close>

lemma wallet_balance_bounds:
  assumes "ledger_ok db" "get_account db name = Inr (i, w)"
  shows "symbol (wa_balance w) = XGT_SYMBOL" "0 \<le> amount (wa_balance w)"
proof -
  have wf: "tb_wf same_wallet (wallets db)" "tb_all (\<lambda>w. xgt_amount (wa_balance w)) (wallets db)"
    using assms(1) by (simp_all add: ledger_ok_def wallets_ok_def)
  have "map_of (tb_rows (wallets db)) i = Some w"
    using tb_get_Inr[OF wf(1)] assms(2) by (simp add: get_account_def)
  then show "symbol (wa_balance w) = XGT_SYMBOL" "0 \<le> amount (wa_balance w)"
    using tb_allD[OF wf(2)] by (simp_all add: xgt_amount_def)
qed

end
