(* ===== verification/Evaluators.thy ===== *)
theory Evaluators
  imports Ledger
begin

text \<open>
  The evaluators of \<open>libraries/chain/xgt_evaluator.cpp\<close> as functions on the chain state, with the
  functions of \<open>database.cpp\<close> they call.  An evaluator that throws returns an error and no state:
  its caller undoes what it did.  Assertions come in the order of the source; the text of a
  message is kept without the values it prints.
\<close>

section \<open>Constants\<close>

definition XGT_MAX_WALLET_CREATION_FEE :: int where "XGT_MAX_WALLET_CREATION_FEE = 0"
definition XGT_SOFT_MAX_BLOCK_SIZE :: "32 word" where "XGT_SOFT_MAX_BLOCK_SIZE = 2 * 1024 * 1024"
definition XGT_RECOVERY_UPDATE_LIMIT :: int where "XGT_RECOVERY_UPDATE_LIMIT = 60 * 60"
definition XGT_RECOVERY_AUTH_HISTORY_TRACKING_START_BLOCK_NUM :: "32 word" where
  "XGT_RECOVERY_AUTH_HISTORY_TRACKING_START_BLOCK_NUM = 3186477"
definition XGT_MIN_PERMLINK_LENGTH :: nat where "XGT_MIN_PERMLINK_LENGTH = 0"
definition XGT_MAX_COMMENT_DEPTH :: "16 word" where "XGT_MAX_COMMENT_DEPTH = 0xffff"
definition XGT_MIN_ROOT_COMMENT_INTERVAL :: int where "XGT_MIN_ROOT_COMMENT_INTERVAL = 60 * 5"
definition XGT_MIN_REPLY_INTERVAL_HF20 :: int where "XGT_MIN_REPLY_INTERVAL_HF20 = 3"
definition XGT_MIN_COMMENT_EDIT_INTERVAL :: int where "XGT_MIN_COMMENT_EDIT_INTERVAL = 3"
definition XGT_CUSTOM_OP_DATA_MAX_LENGTH :: nat where "XGT_CUSTOM_OP_DATA_MAX_LENGTH = 8192"
definition XGT_MINING_REWARD :: asset where "XGT_MINING_REWARD = \<lparr>amount = 4166166, symbol = XGT_SYMBOL\<rparr>"
definition XGT_STARTING_OFFSET :: nat where "XGT_STARTING_OFFSET = 0"
definition XGT_MINING_REWARD_HALVING_INTERVAL :: nat where "XGT_MINING_REWARD_HALVING_INTERVAL = 30150000"

section \<open>Context\<close>

text \<open>
  What an evaluator sees beside the chain state.  The interpreters of custom operations belong
  to plugins, \<open>random_keys\<close> are the public keys of the four random private keys that
  \<open>transfer_evaluator\<close> draws, and \<open>ctx_previous_block\<close> is \<open>database::previous_block_id\<close>, which reads
  the fork database and the block log.
\<close>

record eval_ctx =
  ctx_env :: proto_env
  is_producing :: bool
  is_pending_tx :: bool
  ctx_previous_block :: "block_id_type option"
  custom_interpreters :: "string \<Rightarrow> (custom_json_operation \<Rightarrow> chain_db \<Rightarrow> chain_db result) option"
  random_keys :: "transfer_operation \<Rightarrow> chain_db \<Rightarrow> public_key \<times> public_key \<times> public_key \<times> public_key"

definition seconds_since :: "time_point_sec \<Rightarrow> time_point_sec \<Rightarrow> int" where
  "seconds_since now t = uint now - uint t"

section \<open>Wallets and witnesses\<close>

definition copy_legacy_chain_properties :: "bool \<Rightarrow> legacy_chain_properties \<Rightarrow> chain_properties result" where
  "copy_legacy_chain_properties force_canon src =
    res_bind (to_asset force_canon (account_creation_fee src)) (\<lambda>fee.
      Inr \<lparr>cp_account_creation_fee = fee, cp_maximum_block_size = maximum_block_size src\<rparr>)"

definition witness_update_evaluator :: "witness_update_operation \<Rightarrow> chain_db \<Rightarrow> chain_db result" where
  "witness_update_evaluator op db =
    res_bind (get_account db (wi_owner op)) (\<lambda>_.
    res_bind (fc_assert (is_canon (account_creation_fee (wi_props op))) []) (\<lambda>_.
    res_bind (fc_assert (legacy_amount (account_creation_fee (wi_props op)) \<le> XGT_MAX_WALLET_CREATION_FEE)
      ''account_creation_fee greater than maximum account creation fee'') (\<lambda>_.
    res_bind (fc_assert (maximum_block_size (wi_props op) \<le> XGT_SOFT_MAX_BLOCK_SIZE)
      ''Max block size cannot be more than 2MiB'') (\<lambda>_.
    res_bind (copy_legacy_chain_properties False (wi_props op)) (\<lambda>props.
    case find_witness db (wi_owner op) of
      Some (i, w) \<Rightarrow> on_witnesses (tb_modify same_witness i (\<lambda>w. w\<lparr>ws_url := wi_url op,
          signing_key := wi_block_signing_key op, ws_props := props\<rparr>)) db
    | None \<Rightarrow> on_witnesses (tb_create same_witness (\<lambda>_. witness_default\<lparr>ws_owner := wi_owner op, ws_url := wi_url op,
          signing_key := wi_block_signing_key op, ws_created := head_block_time db, ws_props := props\<rparr>)) db)))))"

definition verify_authority_accounts_exist :: "chain_db \<Rightarrow> authority \<Rightarrow> unit result" where
  "verify_authority_accounts_exist db auth =
    res_all (map (\<lambda>aw. fc_assert (find_account db (fst aw) \<noteq> None)
      ''New authority on account references non-existing account'') (wallet_auths auth))"

definition initialize_wallet_object :: "wallet_name \<Rightarrow> public_key \<Rightarrow> dynamic_global_property_object \<Rightarrow> wallet_object" where
  "initialize_wallet_object name key props =
    wallet_default\<lparr>wa_name := name, wa_memo_key := key, wa_created := dgp_time props\<rparr>"

definition create_wallet :: "wallet_name \<Rightarrow> public_key \<Rightarrow> chain_db \<Rightarrow> chain_db result" where
  "create_wallet name key db =
    on_wallets (tb_create same_wallet (\<lambda>_. initialize_wallet_object name key (dgp db))) db"

definition create_authority :: "wallet_name \<Rightarrow> authority \<Rightarrow> authority \<Rightarrow> authority \<Rightarrow> chain_db \<Rightarrow> chain_db result" where
  "create_authority name recovery money social db =
    on_authorities (tb_create no_conflict (\<lambda>_. \<lparr>au_account = name, au_recovery = recovery, au_money = money,
       au_social = social, last_recovery_update = 0\<rparr>)) db"

definition wallet_create_evaluator :: "eval_ctx \<Rightarrow> wallet_create_operation \<Rightarrow> chain_db \<Rightarrow> chain_db result" where
  "wallet_create_evaluator ctx op db =
    (let name = get_wallet_name (ctx_env ctx) op in
     res_bind (create_wallet name (wc_memo_key op) db) (\<lambda>db.
       create_authority name (wc_recovery op) (wc_money op) (wc_social op) db))"

definition update_recovery_authority :: "wallet_object \<Rightarrow> authority \<Rightarrow> chain_db \<Rightarrow> chain_db result" where
  "update_recovery_authority account recovery db =
    res_bind (if head_block_num db \<ge> XGT_RECOVERY_AUTH_HISTORY_TRACKING_START_BLOCK_NUM then
        res_bind (get_account_authority db (wa_name account)) (\<lambda>(i, a).
          on_recovery_history (tb_create no_conflict (\<lambda>_. \<lparr>hi_account = wa_name account,
            previous_recovery_authority = au_recovery a, last_valid_time = head_block_time db\<rparr>)) db)
      else Inr db) (\<lambda>db.
    res_bind (get_account_authority db (wa_name account)) (\<lambda>(i, a).
      on_authorities (tb_modify no_conflict i (\<lambda>a. a\<lparr>au_recovery := recovery,
        last_recovery_update := head_block_time db\<rparr>)) db))"

text \<open>Dereferencing an empty \<open>fc::optional\<close> is an assertion of the debug build and undefined
  otherwise; the model makes it an error.\<close>

definition deref :: "'a option \<Rightarrow> 'a result" where
  "deref x = res_of_option (Logic_Error ''dereference of an empty optional'') x"

definition opt_check :: "('a \<Rightarrow> unit result) \<Rightarrow> 'a option \<Rightarrow> unit result" where
  "opt_check f x = (case x of None \<Rightarrow> Inr () | Some a \<Rightarrow> f a)"

definition upsert_wallet :: "wallet_update_operation \<Rightarrow> chain_db \<Rightarrow> chain_db result" where
  "upsert_wallet op db = (case find_account db (wu_wallet op) of
      Some a \<Rightarrow> Inr db
    | None \<Rightarrow>
        res_bind (deref (wu_memo_key op)) (\<lambda>key.
        res_bind (create_wallet (wu_wallet op) key db) (\<lambda>db.
        res_bind (deref (wu_recovery op)) (\<lambda>recovery.
        res_bind (deref (wu_money op)) (\<lambda>money.
        res_bind (deref (wu_social op)) (\<lambda>social.
          create_authority (wu_wallet op) recovery money social db))))))"

definition update_metadata :: "wallet_update_operation \<Rightarrow> nat \<Rightarrow> chain_db \<Rightarrow> chain_db result" where
  "update_metadata op i db =
    (if length (wu_json_metadata op) > 0 \<or> length (wu_social_json_metadata op) > 0 then
       res_bind (tb_get (\<lambda>m. md_account m = i) (metadata db)) (\<lambda>(j, m).
         on_metadata (tb_modify same_metadata j (\<lambda>m. m\<lparr>
           md_json_metadata := if length (wu_json_metadata op) > 0 then wu_json_metadata op else md_json_metadata m,
           md_social_json_metadata := if length (wu_social_json_metadata op) > 0 then wu_social_json_metadata op
             else md_social_json_metadata m\<rparr>)) db)
     else Inr db)"

definition change_recovery :: "wallet_update_operation \<Rightarrow> wallet_object \<Rightarrow> account_authority_object \<Rightarrow> chain_db \<Rightarrow> chain_db result" where
  "change_recovery op wallet wallet_auth db = (case wu_recovery op of
      None \<Rightarrow> Inr db
    | Some recovery \<Rightarrow>
        res_bind (fc_assert (seconds_since (head_block_time db) (last_recovery_update wallet_auth) > XGT_RECOVERY_UPDATE_LIMIT)
          ''Recovery authority can only be updated once an hour.'') (\<lambda>_.
        res_bind (verify_authority_accounts_exist db recovery) (\<lambda>_. update_recovery_authority wallet recovery db)))"

definition touch_wallet :: "wallet_update_operation \<Rightarrow> nat \<Rightarrow> chain_db \<Rightarrow> chain_db result" where
  "touch_wallet op i db = on_wallets (tb_modify same_wallet i (\<lambda>acc. acc\<lparr>
     wa_memo_key := (case wu_memo_key op of Some k \<Rightarrow> if k \<noteq> [] then k else wa_memo_key acc | None \<Rightarrow> wa_memo_key acc),
     last_account_update := head_block_time db\<rparr>)) db"

definition change_authorities :: "wallet_update_operation \<Rightarrow> nat \<Rightarrow> chain_db \<Rightarrow> chain_db result" where
  "change_authorities op j db =
    (if wu_money op \<noteq> None \<or> wu_social op \<noteq> None then
       on_authorities (tb_modify no_conflict j (\<lambda>a. a\<lparr>
         au_money := (case wu_money op of Some m \<Rightarrow> m | None \<Rightarrow> au_money a),
         au_social := (case wu_social op of Some s \<Rightarrow> s | None \<Rightarrow> au_social a)\<rparr>)) db
     else Inr db)"

definition wallet_update_evaluator :: "wallet_update_operation \<Rightarrow> chain_db \<Rightarrow> chain_db result" where
  "wallet_update_evaluator op db =
    res_bind (fc_assert (wu_wallet op \<noteq> XGT_TEMP_WALLET) ''Cannot update temp account.'') (\<lambda>_.
    res_bind (opt_check authority_validate (wu_social op)) (\<lambda>_.
    res_bind (upsert_wallet op db) (\<lambda>db.
    res_bind (get_account db (wu_wallet op)) (\<lambda>(i, wallet).
    res_bind (get_account_authority db (wu_wallet op)) (\<lambda>(j, wallet_auth).
    res_bind (opt_check validate_auth_size (wu_recovery op)) (\<lambda>_.
    res_bind (opt_check validate_auth_size (wu_money op)) (\<lambda>_.
    res_bind (opt_check validate_auth_size (wu_social op)) (\<lambda>_.
    res_bind (change_recovery op wallet wallet_auth db) (\<lambda>db.
    res_bind (opt_check (verify_authority_accounts_exist db) (wu_money op)) (\<lambda>_.
    res_bind (opt_check (verify_authority_accounts_exist db) (wu_social op)) (\<lambda>_.
    res_bind (touch_wallet op i db) (\<lambda>db.
    res_bind (update_metadata op i db) (\<lambda>db.
      change_authorities op j db)))))))))))))"

section \<open>Comments\<close>

definition permlink_char :: "char \<Rightarrow> bool" where
  "permlink_char c = (c \<in> set ''abcdefghijklmnopqrstuvwxyz0123456789-'')"

definition validate_permlink_0_1 :: "string \<Rightarrow> unit result" where
  "validate_permlink_0_1 link =
    res_bind (fc_assert (length link > XGT_MIN_PERMLINK_LENGTH \<and> length link < XGT_MAX_PERMLINK_LENGTH)
      ''Permlink is not a valid size.'') (\<lambda>_.
    fc_assert (list_all permlink_char link) ''Invalid permlink character'')"

definition remove_votes :: "nat \<Rightarrow> comment_vote_object table \<Rightarrow> comment_vote_object table" where
  "remove_votes i t = t\<lparr>tb_rows := filter (\<lambda>r. cv_comment (snd r) \<noteq> i) (tb_rows t)\<rparr>"

definition delete_comment_evaluator :: "delete_comment_operation \<Rightarrow> chain_db \<Rightarrow> chain_db result" where
  "delete_comment_evaluator op db =
    res_bind (get_comment db (dc_author op) (dc_permlink op)) (\<lambda>(i, c).
    res_bind (fc_assert (children c = 0) ''Cannot delete a comment with replies.'') (\<lambda>_.
    let db = db\<lparr>comment_votes := remove_votes i (comment_votes db)\<rparr> in
    res_bind (if parent_author c \<noteq> XGT_ROOT_POST_PARENT then
        res_bind (get_comment db (parent_author c) (parent_permlink c)) (\<lambda>(j, p).
          on_comments (tb_modify same_comment j (\<lambda>p. p\<lparr>children := children p - 1, active := head_block_time db\<rparr>)) db)
      else Inr db) (\<lambda>db. on_comments (tb_remove i) db)))"

definition comment_options_evaluator :: "comment_options_operation \<Rightarrow> chain_db \<Rightarrow> chain_db result" where
  "comment_options_evaluator op db =
    res_bind (get_comment db (co_author op) (co_permlink op)) (\<lambda>(i, c).
    res_bind (fc_assert (co_allow_votes op \<longrightarrow> allow_votes c) ''Voting cannot be re-enabled.'') (\<lambda>_.
      on_comments (tb_modify same_comment i (\<lambda>c. c\<lparr>allow_votes := co_allow_votes op\<rparr>)) db))"

text \<open>The loop over the ancestors of a new comment.  A walk longer than the number of comments
  would visit one twice and never end.\<close>

fun bump_parents :: "nat \<Rightarrow> nat \<Rightarrow> chain_db \<Rightarrow> chain_db result" where
  "bump_parents 0 i db = Inl Non_Termination"
| "bump_parents (Suc n) i db =
    res_bind (on_comments (tb_modify same_comment i
      (\<lambda>p. p\<lparr>children := children p + 1, active := head_block_time db\<rparr>)) db) (\<lambda>db.
    res_bind (res_of_option Out_Of_Range_Exception (map_of (tb_rows (comments db)) i)) (\<lambda>p.
      if parent_author p \<noteq> XGT_ROOT_POST_PARENT then
        res_bind (get_comment db (parent_author p) (parent_permlink p)) (\<lambda>(j, q). bump_parents n j db)
      else Inr db))"

definition new_comment :: "comment_operation \<Rightarrow> comment_object option \<Rightarrow> time_point_sec \<Rightarrow> nat \<Rightarrow> comment_object" where
  "new_comment op parent now i =
    (let com = comment_default\<lparr>author := cm_author op, permlink := cm_permlink op, last_update := now,
       cm_created := now, active := now\<rparr> in
     case parent of
       None \<Rightarrow> com\<lparr>parent_author := [], parent_permlink := cm_parent_permlink op, category := cm_parent_permlink op,
         root_comment := i\<rparr>
     | Some p \<Rightarrow> com\<lparr>parent_author := author p, parent_permlink := permlink p, depth := depth p + 1,
         category := category p, root_comment := root_comment p\<rparr>)"

definition create_comment :: "comment_operation \<Rightarrow> nat \<times> wallet_object \<Rightarrow> (nat \<times> comment_object) option \<Rightarrow> chain_db \<Rightarrow> chain_db result" where
  "create_comment op auth parent db =
    (let now = head_block_time db in
     res_bind (case parent of None \<Rightarrow> Inr () | Some (j, p) \<Rightarrow>
       res_bind (res_of_option Out_Of_Range_Exception (map_of (tb_rows (comments db)) (root_comment p))) (\<lambda>r.
         fc_assert (allow_replies r) ''The parent comment has disabled replies.'')) (\<lambda>_.
     res_bind (if parent = None
       then fc_assert (seconds_since now (last_root_post (snd auth)) > XGT_MIN_ROOT_COMMENT_INTERVAL)
         ''You may only post once every 5 minutes.''
       else fc_assert (seconds_since now (last_post (snd auth)) \<ge> XGT_MIN_REPLY_INTERVAL_HF20)
         ''You may only comment once every 3 seconds.'') (\<lambda>_.
     res_bind (on_wallets (tb_modify same_wallet (fst auth) (\<lambda>a. a\<lparr>
         last_root_post := if parent = None then now else last_root_post a,
         last_post := now, last_post_edit := now, post_count := post_count a + 1\<rparr>)) db) (\<lambda>db.
     res_bind (validate_permlink_0_1 (cm_parent_permlink op)) (\<lambda>_.
     res_bind (validate_permlink_0_1 (cm_permlink op)) (\<lambda>_.
     let i = tb_next (comments db) in
     res_bind (on_comments (tb_create same_comment (new_comment op (map_option snd parent) now)) db) (\<lambda>db.
     res_bind (on_contents (tb_create same_content (\<lambda>_. \<lparr>con_comment = i, con_title = cm_title op,
         con_body = if length (cm_body op) < 1024 * 1024 * 128 then cm_body op else [],
         con_json_metadata = cm_json_metadata op\<rparr>)) db) (\<lambda>db.
     case parent of None \<Rightarrow> Inr db
     | Some (j, p) \<Rightarrow> bump_parents (Suc (length (tb_rows (comments db)))) j db))))))))"

text \<open>\<open>equal\<close> of the edit compares sizes and then with \<open>strcmp\<close>.\<close>

definition c_equal :: "string \<Rightarrow> string \<Rightarrow> bool" where
  "c_equal a b = (length a = length b \<and> c_str a = c_str b)"

definition edit_comment :: "comment_operation \<Rightarrow> nat \<times> wallet_object \<Rightarrow> nat \<times> comment_object \<Rightarrow> bool \<Rightarrow> chain_db \<Rightarrow> chain_db result" where
  "edit_comment op auth com has_parent db =
    (let now = head_block_time db in
     res_bind (fc_assert (seconds_since now (last_post_edit (snd auth)) \<ge> XGT_MIN_COMMENT_EDIT_INTERVAL)
       ''Can only perform one comment edit per block.'') (\<lambda>_.
     res_bind (fc_assert (parent_author (snd com) = (if has_parent then cm_parent_author op else []))
       ''The parent of a comment cannot change.'') (\<lambda>_.
     res_bind (fc_assert (c_equal (parent_permlink (snd com)) (cm_parent_permlink op))
       ''The permlink of a comment cannot change.'') (\<lambda>_.
     res_bind (on_comments (tb_modify same_comment (fst com) (\<lambda>c. c\<lparr>last_update := now, active := now\<rparr>)) db) (\<lambda>db.
       on_wallets (tb_modify same_wallet (fst auth) (\<lambda>a. a\<lparr>last_post_edit := now\<rparr>)) db)))))"

definition comment_evaluator :: "comment_operation \<Rightarrow> chain_db \<Rightarrow> chain_db result" where
  "comment_evaluator op db =
    res_bind (fc_assert (length (cm_title op) + length (cm_body op) + length (cm_json_metadata op) \<noteq> 0)
      ''Cannot update comment because nothing appears to be changing.'') (\<lambda>_.
    res_bind (get_account db (cm_author op)) (\<lambda>auth.
    res_bind (if cm_parent_author op \<noteq> XGT_ROOT_POST_PARENT then
        res_bind (get_comment db (cm_parent_author op) (cm_parent_permlink op)) (\<lambda>(j, p).
        res_bind (fc_assert (depth p < XGT_MAX_COMMENT_DEPTH) ''Comment is nested too deep'') (\<lambda>_. Inr (Some (j, p))))
      else Inr None) (\<lambda>parent.
    res_bind (fc_assert (is_utf8 (cm_json_metadata op)) ''JSON Metadata must be UTF-8'') (\<lambda>_.
    case find_comment db (cm_author op) (cm_permlink op) of
      None \<Rightarrow> create_comment op auth parent db
    | Some com \<Rightarrow> edit_comment op auth com (parent \<noteq> None) db))))"

section \<open>Escrows\<close>

definition escrow_transfer_evaluator :: "escrow_transfer_operation \<Rightarrow> chain_db \<Rightarrow> chain_db result" where
  "escrow_transfer_evaluator op db =
    res_bind (get_account db (et_from op)) (\<lambda>from_account.
    res_bind (get_account db (et_to op)) (\<lambda>_.
    res_bind (get_account db (et_agent op)) (\<lambda>_.
    res_bind (fc_assert (et_ratification_deadline op > head_block_time db)
      ''The escorw ratification deadline must be after head block time.'') (\<lambda>_.
    res_bind (fc_assert (et_escrow_expiration op > head_block_time db)
      ''The escrow expiration must be after head block time.'') (\<lambda>_.
    res_bind (if symbol (et_fee op) = XGT_SYMBOL then asset_add (et_xgt_amount op) (et_fee op) else Inr (et_xgt_amount op)) (\<lambda>spent.
    res_bind (asset_neg spent) (\<lambda>d.
    res_bind (adjust_balance_of from_account d db) (\<lambda>db.
      on_escrows (tb_create same_escrow (\<lambda>_. escrow_default\<lparr>es_escrow_id := et_escrow_id op, es_from := et_from op,
        es_to := et_to op, es_agent := et_agent op, ratification_deadline := et_ratification_deadline op,
        escrow_expiration := et_escrow_expiration op, xgt_balance := et_xgt_amount op,
        pending_fee := et_fee op\<rparr>)) db))))))))"

text \<open>An approval by one of the parties; the result is the escrow as it now is.\<close>

definition approve_as :: "bool \<Rightarrow> bool \<Rightarrow> (escrow_object \<Rightarrow> bool) \<Rightarrow> (escrow_object \<Rightarrow> escrow_object) \<Rightarrow> string
    \<Rightarrow> nat \<Rightarrow> escrow_object \<times> chain_db \<Rightarrow> (escrow_object \<times> chain_db) result" where
  "approve_as party approve approved set_approved msg i s = (case s of (e, db) \<Rightarrow>
    if party then
      res_bind (fc_assert (\<not> approved e) msg) (\<lambda>_.
        if approve then res_bind (on_escrows (tb_modify same_escrow i set_approved) db) (\<lambda>db. Inr (set_approved e, db))
        else Inr (e, db))
    else Inr (e, db))"

text \<open>A rejection pays everything back, the second approval pays the fee.\<close>

definition settle_escrow :: "escrow_approve_operation \<Rightarrow> nat \<Rightarrow> escrow_object \<Rightarrow> chain_db \<Rightarrow> chain_db result" where
  "settle_escrow op i e db =
    (if \<not> ea_approve op then
       res_bind (adjust_balance (ea_from op) (xgt_balance e) db) (\<lambda>db.
       res_bind (adjust_balance (ea_from op) (pending_fee e) db) (\<lambda>db. on_escrows (tb_remove i) db))
     else if to_approved e \<and> agent_approved e then
       res_bind (adjust_balance (ea_agent op) (pending_fee e) db) (\<lambda>db.
         on_escrows (tb_modify same_escrow i (\<lambda>e. e\<lparr>pending_fee := (pending_fee e)\<lparr>amount := 0\<rparr>\<rparr>)) db)
     else Inr db)"

definition escrow_approve_evaluator :: "escrow_approve_operation \<Rightarrow> chain_db \<Rightarrow> chain_db result" where
  "escrow_approve_evaluator op db =
    res_bind (get_escrow db (ea_from op) (ea_escrow_id op)) (\<lambda>(i, e).
    res_bind (fc_assert (es_to e = ea_to op) ''Operation to does not match escrow to.'') (\<lambda>_.
    res_bind (fc_assert (es_agent e = ea_agent op) ''Operation agent does not match escrow agent.'') (\<lambda>_.
    res_bind (fc_assert (ratification_deadline e \<ge> head_block_time db)
      ''The escrow ratification deadline has passed. Escrow can no longer be ratified.'') (\<lambda>_.
    res_bind (approve_as (ea_who op = ea_to op) (ea_approve op) to_approved (\<lambda>e. e\<lparr>to_approved := True\<rparr>)
      ''Account to has already approved the escrow.'' i (e, db)) (\<lambda>s.
    res_bind (approve_as (ea_who op = ea_agent op) (ea_approve op) agent_approved (\<lambda>e. e\<lparr>agent_approved := True\<rparr>)
      ''Account agent has already approved the escrow.'' i s) (\<lambda>(e, db). settle_escrow op i e db))))))"

definition escrow_dispute_evaluator :: "escrow_dispute_operation \<Rightarrow> chain_db \<Rightarrow> chain_db result" where
  "escrow_dispute_evaluator op db =
    res_bind (get_account db (ed_from op)) (\<lambda>_.
    res_bind (get_escrow db (ed_from op) (ed_escrow_id op)) (\<lambda>(i, e).
    res_bind (fc_assert (head_block_time db < escrow_expiration e) ''Disputing the escrow must happen before expiration.'') (\<lambda>_.
    res_bind (fc_assert (to_approved e \<and> agent_approved e)
      ''The escrow must be approved by all parties before a dispute can be raised.'') (\<lambda>_.
    res_bind (fc_assert (\<not> disputed e) ''The escrow is already under dispute.'') (\<lambda>_.
    res_bind (fc_assert (es_to e = ed_to op) ''Operation to does not match escrow to.'') (\<lambda>_.
    res_bind (fc_assert (es_agent e = ed_agent op) ''Operation agent does not match escrow agent.'') (\<lambda>_.
      on_escrows (tb_modify same_escrow i (\<lambda>e. e\<lparr>disputed := True\<rparr>)) db)))))))"

definition may_release :: "escrow_release_operation \<Rightarrow> escrow_object \<Rightarrow> time_point_sec \<Rightarrow> unit result" where
  "may_release op e now =
    (if disputed e then
       fc_assert (er_who op = es_agent e) ''Only agent can release funds in a disputed escrow.''
     else
       res_bind (fc_assert (er_who op = es_from e \<or> er_who op = es_to e)
         ''Only from and to can release funds from a non-disputed escrow'') (\<lambda>_.
       if escrow_expiration e > now then
         if er_who op = es_from e then fc_assert (er_receiver op = es_to e) ''Only from can release funds to to.''
         else if er_who op = es_to e then fc_assert (er_receiver op = es_from e) ''Only to can release funds to from.''
         else Inr ()
       else Inr ()))"

definition escrow_release_evaluator :: "escrow_release_operation \<Rightarrow> chain_db \<Rightarrow> chain_db result" where
  "escrow_release_evaluator op db =
    res_bind (get_account db (er_from op)) (\<lambda>_.
    res_bind (get_escrow db (er_from op) (er_escrow_id op)) (\<lambda>(i, e).
    res_bind (asset_greater_eq (xgt_balance e) (er_xgt_amount op)) (\<lambda>enough.
    res_bind (fc_assert enough ''Release amount exceeds escrow balance.'') (\<lambda>_.
    res_bind (fc_assert (es_to e = er_to op) ''Operation to does not match escrow to.'') (\<lambda>_.
    res_bind (fc_assert (es_agent e = er_agent op) ''Operation agent does not match escrow agent.'') (\<lambda>_.
    res_bind (fc_assert (er_receiver op = es_from e \<or> er_receiver op = es_to e)
      ''Funds must be released to from or to'') (\<lambda>_.
    res_bind (fc_assert (to_approved e \<and> agent_approved e) ''Funds cannot be released prior to escrow approval.'') (\<lambda>_.
    res_bind (may_release op e (head_block_time db)) (\<lambda>_.
    res_bind (adjust_balance (er_receiver op) (er_xgt_amount op) db) (\<lambda>db.
    res_bind (asset_sub (xgt_balance e) (er_xgt_amount op)) (\<lambda>rest.
    res_bind (on_escrows (tb_modify same_escrow i (\<lambda>e. e\<lparr>xgt_balance := rest\<rparr>)) db) (\<lambda>db.
      if amount rest = 0 then on_escrows (tb_remove i) db else Inr db))))))))))))"

text \<open>The refund of escrows whose ratification deadline has passed, in the order of the index
  \<open>by_ratification_deadline\<close>.\<close>

definition unratified :: "chain_db \<Rightarrow> (nat \<times> escrow_object) list" where
  "unratified db = sort_key (\<lambda>r. (ratification_deadline (snd r)))
     (filter (\<lambda>r. \<not> is_approved (snd r) \<and> ratification_deadline (snd r) \<le> head_block_time db) (tb_rows (escrows db)))"

definition expire_one :: "nat \<times> escrow_object \<Rightarrow> chain_db \<Rightarrow> chain_db result" where
  "expire_one r db =
    res_bind (adjust_balance (es_from (snd r)) (xgt_balance (snd r)) db) (\<lambda>db.
    res_bind (adjust_balance (es_from (snd r)) (pending_fee (snd r)) db) (\<lambda>db. on_escrows (tb_remove (fst r)) db))"

definition expire_escrow_ratification :: "chain_db \<Rightarrow> chain_db result" where
  "expire_escrow_ratification db = res_fold expire_one (unratified db) db"

section \<open>Transfers, votes and custom operations\<close>

definition key_authority :: "public_key \<Rightarrow> authority" where
  "key_authority k = add_authority_key k 1 (authority_default\<lparr>weight_threshold := 1\<rparr>)"

definition transfer_evaluator :: "eval_ctx \<Rightarrow> transfer_operation \<Rightarrow> chain_db \<Rightarrow> chain_db result" where
  "transfer_evaluator ctx op db =
    res_bind (case find_account db (tr_to op) of
        Some a \<Rightarrow> Inr db
      | None \<Rightarrow> (case random_keys ctx op db of (recovery, money, social, memo) \<Rightarrow>
          res_bind (create_wallet (tr_to op) memo db) (\<lambda>db.
            create_authority (tr_to op) (key_authority recovery) (key_authority money) (key_authority social) db))) (\<lambda>db.
    res_bind (asset_neg (tr_amount op)) (\<lambda>d.
    res_bind (adjust_balance (tr_from op) d db) (\<lambda>db. adjust_balance (tr_to op) (tr_amount op) db)))"

definition vote_evaluator :: "vote_operation \<Rightarrow> chain_db \<Rightarrow> chain_db result" where
  "vote_evaluator op db =
    res_bind (get_comment db (vo_author op) (vo_permlink op)) (\<lambda>(i, c).
    res_bind (get_account db (vo_voter op)) (\<lambda>_.
      on_comments (tb_modify same_comment i (\<lambda>c. c)) db))"

definition custom_evaluator :: "eval_ctx \<Rightarrow> custom_operation \<Rightarrow> chain_db \<Rightarrow> chain_db result" where
  "custom_evaluator ctx op db =
    res_bind (if is_producing ctx then fc_assert (length (cu_data op) \<le> XGT_CUSTOM_OP_DATA_MAX_LENGTH)
      ''Operation data must be less than 8192 bytes.'' else Inr ()) (\<lambda>_.
    res_bind (fc_assert (length (cu_required_auths op) \<le> XGT_MAX_AUTHORITY_MEMBERSHIP)
      ''Authority membership exceeded.'') (\<lambda>_. Inr db))"

text \<open>The exceptions of the standard library are not \<open>fc::exception\<close>s.\<close>

fun is_fc_exception :: "fc_error \<Rightarrow> bool" where
  "is_fc_exception (Logic_Error _) = False"
| "is_fc_exception _ = True"

definition custom_json_evaluator :: "eval_ctx \<Rightarrow> custom_json_operation \<Rightarrow> chain_db \<Rightarrow> chain_db result" where
  "custom_json_evaluator ctx op db =
    res_bind (if is_producing ctx then fc_assert (length (cj_json op) \<le> XGT_CUSTOM_OP_DATA_MAX_LENGTH)
      ''Operation JSON must be less than 8192 bytes.'' else Inr ()) (\<lambda>_.
    res_bind (fc_assert (length (cj_required_auths op) + length (cj_required_social_auths op) \<le> XGT_MAX_AUTHORITY_MEMBERSHIP)
      ''Authority membership exceeded.'') (\<lambda>_.
    case custom_interpreters ctx (cj_id op) of
      None \<Rightarrow> Inr db
    | Some eval \<Rightarrow> (case eval op db of
          Inr db \<Rightarrow> Inr db
        | Inl e \<Rightarrow> if is_fc_exception e \<and> is_producing ctx then Inl e else Inr db)))"

definition report_over_production_evaluator :: "report_over_production_operation \<Rightarrow> chain_db \<Rightarrow> chain_db result" where
  "report_over_production_evaluator op db = Inr db"

definition contract_create_evaluator :: "contract_create_operation \<Rightarrow> chain_db \<Rightarrow> chain_db result" where
  "contract_create_evaluator op db =
    on_contracts (tb_create same_contract (\<lambda>_. contract_default\<lparr>ct_owner := cc_owner op, ct_code := cc_code op\<rparr>)) db"

definition contract_invoke_evaluator :: "contract_invoke_operation \<Rightarrow> chain_db \<Rightarrow> chain_db result" where
  "contract_invoke_evaluator op db = Inr db"

section \<open>Proof of work\<close>

text \<open>The targets are hexadecimal digests.\<close>

definition get_pow_target :: "chain_db \<Rightarrow> digest" where
  "get_pow_target db =
    (if head_block_num db < 400000 then [0x00, 0x00, 0x0f, 0xff, 0xf0] @ replicate 27 0
     else if head_block_num db < 907200 then [0x00, 0x00, 0x00, 0x3f, 0xff, 0xc0] @ replicate 26 0
     else mining_target (dgp db))"

definition get_pow_summary_target :: "chain_db \<Rightarrow> 32 word" where
  "get_pow_summary_target db = approx_log_32 (get_pow_target db)"

text \<open>The product of the reward with \<open>1.0 / divisor\<close> is exact, the divisor being a power of two.\<close>

definition mining_reward :: "32 word \<Rightarrow> asset" where
  "mining_reward head =
    (let halvings = (XGT_STARTING_OFFSET + unat head) div XGT_MINING_REWARD_HALVING_INTERVAL;
         divisor = sint (push_bit halvings 1 :: 64 word)
     in \<lparr>amount = amount XGT_MINING_REWARD div divisor, symbol = symbol XGT_MINING_REWARD\<rparr>)"

definition pow_checks :: "eval_ctx \<Rightarrow> pow_operation \<Rightarrow> sha2_pow \<Rightarrow> chain_db \<Rightarrow> unit result" where
  "pow_checks ctx op work db =
    res_bind (case ctx_previous_block ctx of None \<Rightarrow> Inr ()
      | Some b \<Rightarrow> fc_assert (sha2_prev_block work = b) ''POW op not for last block'') (\<lambda>_.
    res_bind (fc_assert (num_from_id (prev_block (sha2_input work)) > last_irreversible_block_num (dgp db))
      ''POW done for block older than last irreversible block num'') (\<lambda>_.
    res_bind (fc_assert (sha2_summary work < get_pow_summary_target db) ''Insufficient work difficulty.'') (\<lambda>_.
      fc_assert (maximum_block_size (po_props op) \<ge> XGT_MIN_BLOCK_SIZE_LIMIT * 2) ''Voted maximum block size is too small.'')))"

definition create_miner :: "wallet_name \<Rightarrow> public_key \<Rightarrow> pow_operation \<Rightarrow> chain_db \<Rightarrow> chain_db result" where
  "create_miner worker key op db =
    res_bind (create_wallet worker key db) (\<lambda>db.
    res_bind (create_authority worker (key_authority key) (key_authority key) (key_authority key) db) (\<lambda>db.
    res_bind (copy_legacy_chain_properties True (po_props op)) (\<lambda>props.
      on_witnesses (tb_create same_witness (\<lambda>_. witness_default\<lparr>ws_owner := worker, ws_props := props,
        signing_key := key, pow_worker := total_pow (dgp db)\<rparr>)) db)))"

definition reward_worker :: "wallet_name \<Rightarrow> asset \<Rightarrow> pow_operation \<Rightarrow> chain_db \<Rightarrow> chain_db result" where
  "reward_worker worker reward op db = (case find_witness db worker of
      None \<Rightarrow> Inr db
    | Some (i, w) \<Rightarrow>
        res_bind (copy_legacy_chain_properties True (po_props op)) (\<lambda>props.
        res_bind (on_witnesses (tb_modify same_witness i (\<lambda>w. w\<lparr>ws_props := props, pow_worker := total_pow (dgp db)\<rparr>)) db)
          (\<lambda>db. adjust_balance worker reward db)))"

definition pow_evaluator :: "eval_ctx \<Rightarrow> pow_operation \<Rightarrow> chain_db \<Rightarrow> chain_db result" where
  "pow_evaluator ctx op db =
    (if head_block_num db \<ge> 2116800 then Inr db else
     case po_work op of
       Pow_Work _ \<Rightarrow> Inl (Assert_Exception ''static_variant does not contain a value of type'')
     | Sha2_Pow_Work work \<Rightarrow>
        res_bind (pow_checks ctx op work db) (\<lambda>_.
        let worker = worker_account (sha2_input work);
            db = db\<lparr>dgp := (dgp db)\<lparr>total_pow := total_pow (dgp db) + 1, num_pow_witnesses := num_pow_witnesses (dgp db) + 1\<rparr>\<rparr>;
            reward = mining_reward (head_block_number (dgp db))
        in case find_account db worker of
            Some a \<Rightarrow> reward_worker worker reward op db
          | None \<Rightarrow> (case po_new_recovery_key op of
                None \<Rightarrow> Inr db
              | Some key \<Rightarrow> res_bind (create_miner worker key op db) (reward_worker worker reward op))))"

end
