(* ===== verification/Token_Evaluators.thy ===== *)
theory Token_Evaluators
  imports Evaluators
begin

text \<open>
  Tokens: \<open>libraries/chain/xtt_evaluator.cpp\<close>, \<open>required_action_evaluator.cpp\<close>, \<open>util/xtt_token.cpp\<close>,
  \<open>util/nai_generator.hpp\<close> and \<open>xtt_objects/nai_pool.cpp\<close>, and the dispatch of operations to their
  evaluators as \<open>database::initialize_evaluators\<close> registers them.
\<close>

section \<open>Finding tokens\<close>

text \<open>The index \<open>by_symbol\<close> is ordered by the number of the symbol.\<close>

definition tokens_by_symbol :: "chain_db \<Rightarrow> (nat \<times> xtt_token_object) list" where
  "tokens_by_symbol db = sort_key (\<lambda>r. asset_num (liquid_symbol (snd r))) (tb_rows (tokens db))"

definition find_token_by_nai :: "chain_db \<Rightarrow> 32 word \<Rightarrow> (nat \<times> xtt_token_object) option result" where
  "find_token_by_nai db nai =
    res_bind (from_nai nai 0) (\<lambda>s.
    case dropWhile (\<lambda>r. asset_num (liquid_symbol (snd r)) < asset_num s) (tokens_by_symbol db) of
      [] \<Rightarrow> Inr None
    | r # _ \<Rightarrow> res_bind (to_nai (liquid_symbol (snd r))) (\<lambda>n. Inr (if n \<noteq> nai then None else Some r)))"

definition find_token :: "chain_db \<Rightarrow> asset_symbol_type \<Rightarrow> bool \<Rightarrow> (nat \<times> xtt_token_object) option result" where
  "find_token db s precision_agnostic =
    (if precision_agnostic then res_bind (to_nai s) (find_token_by_nai db) else Inr (find_token_by_symbol db s))"

section \<open>The pool of token identifiers\<close>

definition XTT_MIN_NON_RESERVED_NAI :: "32 word" where "XTT_MIN_NON_RESERVED_NAI = 10000000"
definition XTT_MAX_NAI_GENERATION_TRIES :: nat where "XTT_MAX_NAI_GENERATION_TRIES = 100"
definition NAI_GENERATION_SEED_BLOCK_ID_HASH_INDEX :: nat where "NAI_GENERATION_SEED_BLOCK_ID_HASH_INDEX = 4"

definition hash_byte :: "8 word \<Rightarrow> 32 word \<Rightarrow> 32 word" where
  "hash_byte byte h = (ucast byte XOR h) * 0x01000193"

definition hash_word :: "32 word \<Rightarrow> 32 word" where
  "hash_word four_bytes = fold hash_byte (le_bytes 4 four_bytes) 0x811C9DC5"

definition nai_generate :: "32 word \<Rightarrow> asset_symbol_type result" where
  "nai_generate seed =
    (let nai = (hash_word seed mod ((XTT_MAX_NAI + 1) - XTT_MIN_NON_RESERVED_NAI)) + XTT_MIN_NON_RESERVED_NAI;
         nai = nai AND NOT 1
     in res_bind (damm_checksum_8digit nai) (\<lambda>check_digit.
        res_bind (asset_num_from_nai (nai * 10 + ucast check_digit) 0) (\<lambda>n. Inr (from_asset_num n))))"

record nai_refill =
  rf_collisions :: "32 word"
  rf_attempts :: "32 word"
  rf_num :: nat
  rf_nais :: "asset_symbol_type list"

text \<open>\<open>std::find\<close> over the first \<open>num\<close> entries of the pool gives the position of the symbol, or
  \<open>num\<close> when it is not there.\<close>

definition std_find :: "asset_symbol_type \<Rightarrow> nat \<Rightarrow> asset_symbol_type list \<Rightarrow> nat" where
  "std_find s n xs = length (takeWhile (\<lambda>x. x \<noteq> s) (take n xs))"

definition nai_is_new :: "chain_db \<Rightarrow> asset_symbol_type \<Rightarrow> nai_refill \<Rightarrow> bool result" where
  "nai_is_new db s r = res_bind (find_token db s True) (\<lambda>t.
     Inr (t = None \<and> std_find s (rf_num r) (rf_nais r) \<noteq> XTT_MAX_NAI_POOL_COUNT))"

lemma res_bind_cong [fundef_cong]:
  "m = m' \<Longrightarrow> (\<And>x. m' = Inr x \<Longrightarrow> f x = g x) \<Longrightarrow> res_bind m f = res_bind m' g"
  by (cases m) auto

lemma unat_Suc_less: "unat (w :: 32 word) < n \<Longrightarrow> n \<le> 2 ^ 32 - 1 \<Longrightarrow> unat (w + 1) = unat w + 1"
  by (simp add: unat_word_ariths)

function refill_nais :: "chain_db \<Rightarrow> block_id_type \<Rightarrow> nai_refill \<Rightarrow> nai_refill result" where
  "refill_nais db last_block_id r =
    (if \<not> rf_num r < XTT_MAX_NAI_POOL_COUNT then Inr r
     else if unat (rf_collisions r) \<ge> XTT_MAX_NAI_GENERATION_TRIES then Inr r
     else res_bind (nai_generate (le_word (take 4 (drop (4 * NAI_GENERATION_SEED_BLOCK_ID_HASH_INDEX) last_block_id)) + rf_attempts r)) (\<lambda>s.
          res_bind (nai_is_new db s r) (\<lambda>new.
            if new then refill_nais db last_block_id (r\<lparr>rf_attempts := rf_attempts r + 1,
              rf_nais := (rf_nais r)[rf_num r := s], rf_num := rf_num r + 1\<rparr>)
            else refill_nais db last_block_id (r\<lparr>rf_attempts := rf_attempts r + 1, rf_collisions := rf_collisions r + 1\<rparr>))))"
  by pat_completeness auto

termination
  by (relation "measure (\<lambda>(db, b, r). (XTT_MAX_NAI_POOL_COUNT - rf_num r) + (XTT_MAX_NAI_GENERATION_TRIES - unat (rf_collisions r)))")
    (auto simp: XTT_MAX_NAI_GENERATION_TRIES_def unat_Suc_less[of _ 100])

declare refill_nais.simps [simp del]

definition replenish_nai_pool :: "chain_db \<Rightarrow> chain_db result" where
  "replenish_nai_pool db =
    (let npo = nai_pool db; head = head_block_id db; first = (np_last_block_id npo \<noteq> head);
         r = \<lparr>rf_collisions = if first then 0 else collisions_per_block npo,
              rf_attempts = if first then 0 else attempts_per_block npo,
              rf_num = num_available_nais npo, rf_nais = nais npo\<rparr>
     in if unat (rf_collisions r) < XTT_MAX_NAI_GENERATION_TRIES then
          res_bind (refill_nais db head r) (\<lambda>r.
            Inr (db\<lparr>nai_pool := \<lparr>num_available_nais = rf_num r, attempts_per_block = rf_attempts r,
              collisions_per_block = rf_collisions r, np_last_block_id = head, nais = rf_nais r\<rparr>\<rparr>))
        else Inr db)"

definition remove_from_nai_pool :: "asset_symbol_type \<Rightarrow> chain_db \<Rightarrow> chain_db" where
  "remove_from_nai_pool a db =
    (let npo = nai_pool db; n = num_available_nais npo;
         i = std_find (from_asset_num (get_stripped_precision_xtt_num a)) n (nais npo)
     in if i < n then
          db\<lparr>nai_pool := npo\<lparr>nais := (nais npo)[i := nais npo ! (n - 1), n - 1 := from_asset_num 0],
             num_available_nais := n - 1\<rparr>\<rparr>
        else db)"

section \<open>Required actions\<close>

definition push_required_action :: "eval_ctx \<Rightarrow> required_automated_action \<Rightarrow> time_point_sec \<Rightarrow> chain_db \<Rightarrow> chain_db result" where
  "push_required_action ctx a execution db =
    res_bind (required_action_validate a) (\<lambda>_.
      if \<not> is_pending_tx ctx then
        on_required_actions (tb_create no_conflict (\<lambda>_. \<lparr>execution_time = max execution (head_block_time db),
          pending_action = a\<rparr>)) db
      else Inr db)"

definition schedule_next_refund :: "eval_ctx \<Rightarrow> asset_symbol_type \<Rightarrow> chain_db \<Rightarrow> (bool \<times> chain_db) result" where
  "schedule_next_refund ctx a db = (case tb_find (\<lambda>c. ctb_symbol c = a) (contributions db) of
      None \<Rightarrow> Inr (False, db)
    | Some (i, c) \<Rightarrow>
        res_bind (push_required_action ctx (Xtt_Refund \<lparr>refund_contributor = ctb_contributor c, refund_symbol = ctb_symbol c,
          refund_contribution_id = ctb_contribution_id c, refund_asset = ctb_contribution c\<rparr>) (head_block_time db) db)
          (\<lambda>db. Inr (True, db)))"

definition tiers_of :: "chain_db \<Rightarrow> asset_symbol_type \<Rightarrow> (nat \<times> xtt_ico_tier_object) list" where
  "tiers_of db s = filter (\<lambda>r. tier_symbol (snd r) = s) (tb_rows (ico_tiers db))"

definition xgt_units_hard_cap :: "chain_db \<Rightarrow> asset_symbol_type \<Rightarrow> int option" where
  "xgt_units_hard_cap db s =
    (let caps = sort (map (\<lambda>r. tier_xgt_units_cap (snd r)) (tiers_of db s)) in if caps = [] then None else Some (last caps))"

definition ico_tier_size :: "chain_db \<Rightarrow> asset_symbol_type \<Rightarrow> nat" where
  "ico_tier_size db s = length (tiers_of db s)"

definition remove_ico_objects :: "asset_symbol_type \<Rightarrow> chain_db \<Rightarrow> chain_db result" where
  "remove_ico_objects s db =
    res_bind (res_of_option Out_Of_Range_Exception (find_ico db s)) (\<lambda>(i, ico).
    res_bind (on_icos (tb_remove i) db) (\<lambda>db.
      res_fold (\<lambda>r. on_ico_tiers (tb_remove (fst r))) (tiers_of db s) db))"

definition set_phase :: "nat \<Rightarrow> xtt_phase \<Rightarrow> chain_db \<Rightarrow> chain_db result" where
  "set_phase i p db = on_tokens (tb_modify same_token i (\<lambda>t. t\<lparr>phase := p\<rparr>)) db"

definition get_token :: "chain_db \<Rightarrow> asset_symbol_type \<Rightarrow> (nat \<times> xtt_token_object) result" where
  "get_token db s = res_of_option Out_Of_Range_Exception (find_token_by_symbol db s)"

definition get_ico :: "chain_db \<Rightarrow> asset_symbol_type \<Rightarrow> (nat \<times> xtt_ico_object) result" where
  "get_ico db s = res_of_option Out_Of_Range_Exception (find_ico db s)"

definition xtt_ico_launch_evaluator :: "eval_ctx \<Rightarrow> xtt_admin_action \<Rightarrow> chain_db \<Rightarrow> chain_db result" where
  "xtt_ico_launch_evaluator ctx a db =
    res_bind (get_token db (action_symbol a)) (\<lambda>(i, token).
    res_bind (get_ico db (liquid_symbol token)) (\<lambda>(j, ico).
    res_bind (set_phase i Ico db) (\<lambda>db.
      push_required_action ctx (Xtt_Ico_Evaluation \<lparr>action_control_account = control_account token,
        action_symbol = liquid_symbol token\<rparr>) (contribution_end_time ico) db)))"

definition xtt_ico_evaluation_evaluator :: "eval_ctx \<Rightarrow> xtt_admin_action \<Rightarrow> chain_db \<Rightarrow> chain_db result" where
  "xtt_ico_evaluation_evaluator ctx a db =
    res_bind (get_token db (action_symbol a)) (\<lambda>(i, token).
    res_bind (get_ico db (liquid_symbol token)) (\<lambda>(j, ico).
    if amount (contributed ico) \<ge> ico_xgt_units_min ico then
      res_bind (set_phase i Ico_Completed db) (\<lambda>db.
        push_required_action ctx (Xtt_Token_Launch \<lparr>action_control_account = control_account token,
          action_symbol = liquid_symbol token\<rparr>) (launch_time ico) db)
    else set_phase i Launch_Failed db))"

definition xtt_token_launch_evaluator :: "xtt_admin_action \<Rightarrow> chain_db \<Rightarrow> chain_db result" where
  "xtt_token_launch_evaluator a db =
    res_bind (get_token db (action_symbol a)) (\<lambda>(i, token). set_phase i Launch_Success db)"

fun apply_required_action :: "eval_ctx \<Rightarrow> required_automated_action \<Rightarrow> chain_db \<Rightarrow> chain_db result" where
  "apply_required_action ctx (Xtt_Ico_Launch a) db = xtt_ico_launch_evaluator ctx a db"
| "apply_required_action ctx (Xtt_Ico_Evaluation a) db = xtt_ico_evaluation_evaluator ctx a db"
| "apply_required_action ctx (Xtt_Token_Launch a) db = xtt_token_launch_evaluator a db"
| "apply_required_action ctx (Xtt_Refund a) db = Inr db"
| "apply_required_action ctx (Example_Required a) db = Inr db"

section \<open>Token operations\<close>

definition XTT_MAX_ICO_TIERS :: nat where "XTT_MAX_ICO_TIERS = 10"

definition get_controlled_xtt :: "chain_db \<Rightarrow> wallet_name \<Rightarrow> asset_symbol_type \<Rightarrow> (nat \<times> xtt_token_object) result" where
  "get_controlled_xtt db control s = (case find_token_by_symbol db s of
      None \<Rightarrow> Inl (Assert_Exception ''XTT numerical asset identifier not found'')
    | Some (i, xtt) \<Rightarrow>
        res_bind (fc_assert (control_account xtt = control) ''The wallet does NOT control the XTT'') (\<lambda>_. Inr (i, xtt)))"

definition common_pre_setup_evaluation :: "chain_db \<Rightarrow> asset_symbol_type \<Rightarrow> wallet_name \<Rightarrow> (nat \<times> xtt_token_object) result" where
  "common_pre_setup_evaluation db s control =
    res_bind (get_controlled_xtt db control s) (\<lambda>(i, xtt).
    res_bind (fc_assert (phase_num (phase xtt) < phase_num Setup_Completed)
      ''XTT pre-setup operation no longer allowed after setup phase is over'') (\<lambda>_. Inr (i, xtt)))"

definition create_or_reset :: "xtt_create_operation \<Rightarrow> (nat \<times> xtt_token_object) option \<Rightarrow> chain_db \<Rightarrow> chain_db result" where
  "create_or_reset op token_ptr db =
    (if amount (xc_xtt_creation_fee op) > 0 then
       res_bind (fc_assert (token_ptr = None) ''XTT has already been created.'') (\<lambda>_.
       res_bind (fc_assert (nai_pool_contains (nai_pool db) (xc_symbol op))
         ''Cannot create an XTT that did not come from the NAI pool.'') (\<lambda>_.
       res_bind (fc_assert (asset_eq (xc_xtt_creation_fee op) (xtt_creation_fee (dgp db)))
         ''Fee does not match the creation fee'') (\<lambda>_.
       res_bind (asset_neg (xc_xtt_creation_fee op)) (\<lambda>d.
       res_bind (adjust_balance (xc_control_account op) d db) (\<lambda>db.
         adjust_balance XGT_NULL_WALLET (xc_xtt_creation_fee op) db)))))
     else (case token_ptr of
         None \<Rightarrow> Inl (Assert_Exception ''Cannot reset a non-existent XTT. Did you forget to specify the creation fee?'')
       | Some (i, token) \<Rightarrow>
           res_bind (fc_assert (control_account token = xc_control_account op) ''You do not control this XTT.'') (\<lambda>_.
           res_bind (fc_assert (phase token = Setup) ''XTT cannot be reset if setup is completed.'') (\<lambda>_.
             on_tokens (tb_remove i) db))))"

definition xtt_create_evaluator :: "eval_ctx \<Rightarrow> xtt_create_operation \<Rightarrow> chain_db \<Rightarrow> chain_db result" where
  "xtt_create_evaluator ctx op db =
    res_bind (find_token db (xc_symbol op) True) (\<lambda>token_ptr.
    res_bind (create_or_reset op token_ptr db) (\<lambda>db.
    res_bind (on_tokens (tb_create same_token (\<lambda>_. xtt_token_default\<lparr>liquid_symbol := xc_symbol op,
      control_account := xc_control_account op, desired_ticker := xc_desired_ticker op\<rparr>)) db) (\<lambda>db.
    let db = remove_from_nai_pool (xc_symbol op) db in
    if \<not> is_pending_tx ctx then replenish_nai_pool db else Inr db)))"

definition verify_accounts :: "chain_db \<Rightarrow> (unit_target_type, 16 word) flat_map \<Rightarrow> unit result" where
  "verify_accounts db us = res_all (map (\<lambda>u.
     if \<not> is_wallet_name_type (fst u) then Inr ()
     else res_bind (get_unit_target_account (fst u)) (\<lambda>name.
       fc_assert (find_account db name \<noteq> None) ''The provided account unit target does not exist.'')) us)"

definition xtt_setup_evaluator :: "eval_ctx \<Rightarrow> xtt_setup_operation \<Rightarrow> chain_db \<Rightarrow> chain_db result" where
  "xtt_setup_evaluator ctx op db =
    res_bind (common_pre_setup_evaluation db (xs_symbol op) (xs_control_account op)) (\<lambda>(i, token).
    res_bind (if xs_xgt_units_min op > 0 then
        (case xgt_units_hard_cap db (xs_symbol op) of
          None \<Rightarrow> Inl (Assert_Exception ''An XTT with a Xgt Units Minimum cannot succeed without an ICO tier.'')
        | Some cap \<Rightarrow> fc_assert (xs_xgt_units_min op \<le> cap) ''The Xgt Units Minimum must be less than the hard cap.'')
      else Inr ()) (\<lambda>_.
    res_bind (on_tokens (tb_modify same_token i (\<lambda>t. t\<lparr>phase := Setup_Completed, tk_max_supply := xs_max_supply op\<rparr>)) db) (\<lambda>db.
    res_bind (on_icos (tb_create same_ico (\<lambda>_. xtt_ico_default\<lparr>ico_symbol := liquid_symbol token,
      contribution_begin_time := xs_contribution_begin_time op, contribution_end_time := xs_contribution_end_time op,
      launch_time := xs_launch_time op, ico_xgt_units_min := xs_xgt_units_min op,
      ico_min_unit_ratio := xs_min_unit_ratio op, ico_max_unit_ratio := xs_max_unit_ratio op\<rparr>)) db) (\<lambda>db.
      push_required_action ctx (Xtt_Ico_Launch \<lparr>action_control_account = control_account token,
        action_symbol = liquid_symbol token\<rparr>) (xs_contribution_begin_time op) db))))"

definition xtt_setup_ico_tier_evaluator :: "xtt_setup_ico_tier_operation \<Rightarrow> chain_db \<Rightarrow> chain_db result" where
  "xtt_setup_ico_tier_evaluator op db =
    res_bind (common_pre_setup_evaluation db (xt_symbol op) (xt_control_account op)) (\<lambda>(i, token).
    if xt_remove op then
      (case tb_find (\<lambda>t. tier_symbol t = liquid_symbol token \<and> tier_xgt_units_cap t = xt_xgt_units_cap op) (ico_tiers db) of
        None \<Rightarrow> Inl (Assert_Exception ''The specified ICO tier does not exist.'')
      | Some (j, t) \<Rightarrow> on_ico_tiers (tb_remove j) db)
    else
      res_bind (fc_assert (ico_tier_size db (xt_symbol op) < XTT_MAX_ICO_TIERS) ''There can be a maximum of 10 ICO tiers.'') (\<lambda>_.
      res_bind (verify_accounts db (xgt_unit (generation_unit (xt_generation_policy op)))) (\<lambda>_.
      res_bind (verify_accounts db (token_unit (generation_unit (xt_generation_policy op)))) (\<lambda>_.
        on_ico_tiers (tb_create same_tier (\<lambda>_. \<lparr>tier_symbol = liquid_symbol token,
          tier_xgt_units_cap = xt_xgt_units_cap op,
          tier_generation_unit = generation_unit (xt_generation_policy op)\<rparr>)) db))))"

fun apply_setup_parameter :: "xtt_setup_parameter \<Rightarrow> xtt_token_object \<Rightarrow> xtt_token_object" where
  "apply_setup_parameter (Allow_Voting b) t = t\<lparr>allow_voting := b\<rparr>"

definition xtt_set_setup_parameters_evaluator :: "xtt_set_setup_parameters_operation \<Rightarrow> chain_db \<Rightarrow> chain_db result" where
  "xtt_set_setup_parameters_evaluator op db =
    res_bind (common_pre_setup_evaluation db (xp_symbol op) (xp_control_account op)) (\<lambda>(i, token).
      on_tokens (tb_modify same_token i (fold apply_setup_parameter (xp_setup_parameters op))) db)"

fun apply_runtime_parameter :: "xtt_runtime_parameter \<Rightarrow> xtt_token_object \<Rightarrow> xtt_token_object" where
  "apply_runtime_parameter (Param_Windows w) t = t\<lparr>reverse_auction_window_seconds := w\<rparr>"
| "apply_runtime_parameter (Param_Vote_Regeneration v) t = t\<lparr>
     tk_vote_regeneration_period_seconds := vote_regeneration_period_seconds v,
     tk_votes_per_regeneration_period := votes_per_regeneration_period v\<rparr>"
| "apply_runtime_parameter (Param_Allow_Downvotes b) t = t\<lparr>allow_downvotes := b\<rparr>"

definition xtt_set_runtime_parameters_evaluator :: "xtt_set_runtime_parameters_operation \<Rightarrow> chain_db \<Rightarrow> chain_db result" where
  "xtt_set_runtime_parameters_evaluator op db =
    res_bind (common_pre_setup_evaluation db (xr_symbol op) (xr_control_account op)) (\<lambda>(i, token).
      on_tokens (tb_modify same_token i (fold apply_runtime_parameter (xr_runtime_parameters op))) db)"

definition xtt_contribute_evaluator :: "xtt_contribute_operation \<Rightarrow> chain_db \<Rightarrow> chain_db result" where
  "xtt_contribute_evaluator op db = (case find_token_by_symbol db (xo_symbol op) of
      None \<Rightarrow> Inl (Assert_Exception ''Cannot contribute to an unknown XTT'')
    | Some (i, token) \<Rightarrow>
        res_bind (fc_assert (phase_num (phase token) \<ge> phase_num Ico) ''XTT has not begun accepting contributions'') (\<lambda>_.
        res_bind (fc_assert (phase_num (phase token) < phase_num Ico_Completed) ''XTT is no longer accepting contributions'') (\<lambda>_.
        res_bind (res_of_option (Assert_Exception ''The specified token does not feature an ICO'') (xgt_units_hard_cap db (xo_symbol op))) (\<lambda>hard_cap.
        res_bind (res_of_option (Assert_Exception ''Unable to find ICO data'') (find_ico db (liquid_symbol token))) (\<lambda>(j, ico).
        res_bind (fc_assert (amount (contributed ico) < hard_cap) ''XTT ICO has reached its hard cap'') (\<lambda>_.
        res_bind (safe_add (amount (contributed ico)) (amount (xo_contribution op))) (\<lambda>new.
        res_bind (fc_assert (new \<le> hard_cap) ''The proposed contribution would exceed the ICO hard cap'') (\<lambda>_.
        res_bind (fc_assert (tb_find (\<lambda>c. (ctb_symbol c, ctb_contributor c, ctb_contribution_id c)
            = (symbol (xo_contribution op), xo_contributor op, xo_contribution_id op)) (contributions db) = None)
          ''The provided contribution ID must be unique.'') (\<lambda>_.
        res_bind (asset_neg (xo_contribution op)) (\<lambda>d.
        res_bind (adjust_balance (xo_contributor op) d db) (\<lambda>db.
        res_bind (on_contributions (tb_create same_contribution (\<lambda>_. \<lparr>ctb_symbol = xo_symbol op,
          ctb_contributor = xo_contributor op, ctb_contribution_id = xo_contribution_id op,
          ctb_contribution = xo_contribution op\<rparr>)) db) (\<lambda>db.
        res_bind (asset_add (contributed ico) (xo_contribution op)) (\<lambda>c.
          on_icos (tb_modify same_ico j (\<lambda>ico. ico\<lparr>contributed := c\<rparr>)) db)))))))))))))"

section \<open>Dispatch\<close>

text \<open>An operation without a registered evaluator is a failed \<open>assert\<close> in the debug build and the
  call of a null pointer otherwise; the model makes it an error.\<close>

fun apply_operation :: "eval_ctx \<Rightarrow> operation \<Rightarrow> chain_db \<Rightarrow> chain_db result" where
  "apply_operation ctx (Vote_Op x) db = vote_evaluator x db"
| "apply_operation ctx (Comment_Op x) db = comment_evaluator x db"
| "apply_operation ctx (Comment_Options_Op x) db = comment_options_evaluator x db"
| "apply_operation ctx (Delete_Comment_Op x) db = delete_comment_evaluator x db"
| "apply_operation ctx (Transfer_Op x) db = transfer_evaluator ctx x db"
| "apply_operation ctx (Wallet_Create_Op x) db = wallet_create_evaluator ctx x db"
| "apply_operation ctx (Wallet_Update_Op x) db = wallet_update_evaluator x db"
| "apply_operation ctx (Witness_Update_Op x) db = witness_update_evaluator x db"
| "apply_operation ctx (Custom_Op x) db = custom_evaluator ctx x db"
| "apply_operation ctx (Custom_Json_Op x) db = custom_json_evaluator ctx x db"
| "apply_operation ctx (Pow_Op x) db = pow_evaluator ctx x db"
| "apply_operation ctx (Report_Over_Production_Op x) db = report_over_production_evaluator x db"
| "apply_operation ctx (Escrow_Transfer_Op x) db = escrow_transfer_evaluator x db"
| "apply_operation ctx (Escrow_Approve_Op x) db = escrow_approve_evaluator x db"
| "apply_operation ctx (Escrow_Dispute_Op x) db = escrow_dispute_evaluator x db"
| "apply_operation ctx (Escrow_Release_Op x) db = escrow_release_evaluator x db"
| "apply_operation ctx (Xtt_Setup_Op x) db = xtt_setup_evaluator ctx x db"
| "apply_operation ctx (Xtt_Setup_Ico_Tier_Op x) db = xtt_setup_ico_tier_evaluator x db"
| "apply_operation ctx (Xtt_Set_Setup_Parameters_Op x) db = xtt_set_setup_parameters_evaluator x db"
| "apply_operation ctx (Xtt_Set_Runtime_Parameters_Op x) db = xtt_set_runtime_parameters_evaluator x db"
| "apply_operation ctx (Xtt_Create_Op x) db = xtt_create_evaluator ctx x db"
| "apply_operation ctx (Xtt_Contribute_Op x) db = xtt_contribute_evaluator x db"
| "apply_operation ctx (Contract_Create_Op x) db = contract_create_evaluator x db"
| "apply_operation ctx (Contract_Invoke_Op x) db = contract_invoke_evaluator x db"
| "apply_operation ctx _ db = Inl (Logic_Error ''No registered evaluator for this operation'')"

end
