(* ===== verification/Conservation.thy ===== *)
theory Conservation
  imports Token_Evaluators
begin

text \<open>
  Conservation: what the operations do to the XGT in wallets, escrows and ICO contributions.
  Every operation keeps the invariant of the ledger (unique keys, XGT amounts that are not
  negative, fees of approved escrows paid, no token ever issued) and the sum of all XGT, but for
  the reward of a proof of work.
\<close>

definition escrow_funds :: "escrow_object \<Rightarrow> int" where
  "escrow_funds e = amount (xgt_balance e) + amount (pending_fee e)"

definition escrows_ok :: "chain_db \<Rightarrow> bool" where
  "escrows_ok db \<longleftrightarrow> tb_wf same_escrow (escrows db)
     \<and> tb_all (\<lambda>e. xgt_amount (xgt_balance e) \<and> xgt_amount (pending_fee e)) (escrows db)"

definition contributions_ok :: "chain_db \<Rightarrow> bool" where
  "contributions_ok db \<longleftrightarrow> tb_wf same_contribution (contributions db)
     \<and> tb_all (\<lambda>c. xgt_amount (ctb_contribution c)) (contributions db)"

definition no_tokens_issued :: "chain_db \<Rightarrow> bool" where
  "no_tokens_issued db \<longleftrightarrow> balances db = tb_empty \<and> tb_wf same_token (tokens db)
     \<and> tb_all (\<lambda>t. tk_current_supply t = 0) (tokens db)"

definition assets_ok :: "chain_db \<Rightarrow> bool" where
  "assets_ok db \<longleftrightarrow> wallets_ok db \<and> escrows_ok db \<and> contributions_ok db \<and> no_tokens_issued db"

definition xgt_in_system :: "chain_db \<Rightarrow> int" where
  "xgt_in_system db = wallet_total db + tb_sum escrow_funds (escrows db)
     + tb_sum (\<lambda>c. amount (ctb_contribution c)) (contributions db)"

text \<open>A step that keeps the ledger and changes the XGT in the system by \<open>x\<close>.\<close>

definition issues :: "int \<Rightarrow> chain_db \<Rightarrow> chain_db \<Rightarrow> bool" where
  "issues x db db' \<longleftrightarrow> assets_ok db' \<and> xgt_in_system db' = xgt_in_system db + x"

section \<open>Reference definitions\<close>

definition escrow_of :: "escrow_transfer_operation \<Rightarrow> escrow_object" where
  "escrow_of op = escrow_default\<lparr>es_escrow_id := et_escrow_id op, es_from := et_from op,
     es_to := et_to op, es_agent := et_agent op, ratification_deadline := et_ratification_deadline op,
     escrow_expiration := et_escrow_expiration op, xgt_balance := et_xgt_amount op, pending_fee := et_fee op\<rparr>"

definition fees_paid :: "chain_db \<Rightarrow> bool" where
  "fees_paid db \<longleftrightarrow> tb_all (\<lambda>e. is_approved e \<longrightarrow> amount (pending_fee e) = 0) (escrows db)"

definition funds_ok :: "chain_db \<Rightarrow> bool" where
  "funds_ok db \<longleftrightarrow> assets_ok db \<and> fees_paid db"

text \<open>A step that keeps the escrows.\<close>

definition keeps :: "int \<Rightarrow> chain_db \<Rightarrow> chain_db \<Rightarrow> bool" where
  "keeps x db db' \<longleftrightarrow> issues x db db' \<and> escrows db' = escrows db"

text \<open>The interpreters of plugins keep to tables of their own.\<close>

definition interpreters_keep :: "eval_ctx \<Rightarrow> bool" where
  "interpreters_keep ctx \<longleftrightarrow> (\<forall>name f op db db'. custom_interpreters ctx name = Some f \<and> f op db = Inr db'
     \<longrightarrow> wallets db' = wallets db \<and> escrows db' = escrows db \<and> contributions db' = contributions db
       \<and> balances db' = balances db \<and> tokens db' = tokens db \<and> comments db' = comments db)"

definition others_paid :: "nat \<Rightarrow> chain_db \<Rightarrow> bool" where
  "others_paid i db \<longleftrightarrow> (\<forall>j e. j \<noteq> i \<and> map_of (tb_rows (escrows db)) j = Some e \<and> is_approved e \<longrightarrow> amount (pending_fee e) = 0)"

text \<open>Every operation conserves XGT, but for the reward of a proof of work.\<close>

definition step_ok :: "operation \<Rightarrow> chain_db \<Rightarrow> chain_db \<Rightarrow> bool" where
  "step_ok op db db' \<longleftrightarrow> funds_ok db' \<and> (xgt_in_system db' = xgt_in_system db
     \<or> is_pow_operation op \<and> xgt_in_system db' = xgt_in_system db + amount XGT_MINING_REWARD)"

definition sample_ctx :: eval_ctx where
  "sample_ctx = \<lparr>ctx_env = \<lparr>json_is_valid = (\<lambda>_. True), hash_pow_input = (\<lambda>_. []), hash_digest = id,
     sign_compact = (\<lambda>_ _. []), recover_key = (\<lambda>_ _. Inr []), hash_signature = id, hash_work = (\<lambda>_ _. []),
     header_signee = (\<lambda>_. Inr []), sha224_header = (\<lambda>_. replicate 28 0), sha256_base58 = id\<rparr>,
     is_producing = False, is_pending_tx = False, ctx_previous_block = None,
     custom_interpreters = (\<lambda>_. None), random_keys = (\<lambda>_ _. ([], [], [], []))\<rparr>"

definition sample_wallet :: "wallet_name \<Rightarrow> int \<Rightarrow> wallet_object" where
  "sample_wallet name x = wallet_default\<lparr>wa_name := name, wa_balance := \<lparr>amount = x, symbol = XGT_SYMBOL\<rparr>\<rparr>"

definition sample_chain :: chain_db where
  "sample_chain = chain_db_init\<lparr>wallets := \<lparr>tb_rows = [(0, sample_wallet ''alice'' 100), (1, sample_wallet ''bob'' 7)], tb_next = 2\<rparr>\<rparr>"

definition sample_transfer :: operation where
  "sample_transfer = Transfer_Op \<lparr>tr_from = ''alice'', tr_to = ''carol'', tr_amount = \<lparr>amount = 30, symbol = XGT_SYMBOL\<rparr>, tr_memo = []\<rparr>"

lemma issues_trans: "issues x db db1 \<Longrightarrow> issues y db1 db2 \<Longrightarrow> issues (x + y) db db2"
  by (simp add: issues_def)

lemma issues_refl: "assets_ok db \<Longrightarrow> issues 0 db db"
  by (simp add: issues_def)

lemmas asset_defs = wallets_ok_def escrows_ok_def contributions_ok_def no_tokens_issued_def wallet_total_def

text \<open>Tables that hold no assets.\<close>

lemma issues_frame:
  assumes "assets_ok db" "wallets db' = wallets db" "escrows db' = escrows db" "contributions db' = contributions db"
    "balances db' = balances db" "tokens db' = tokens db"
  shows "issues 0 db db'"
  using assms by (simp add: issues_def assets_ok_def xgt_in_system_def asset_defs)

lemma tb_all_empty [simp]: "tb_all p tb_empty"
  by (simp add: tb_all_def tb_empty_def)

lemma assets_ok_ledger: "assets_ok db \<Longrightarrow> ledger_ok db"
  by (simp add: assets_ok_def ledger_ok_def tokens_ok_def no_tokens_issued_def)

lemma adjust_xgt_issues:
  assumes ok: "assets_ok db" and s: "symbol delta = XGT_SYMBOL" and m: "adjust_balance name delta db = Inr db'"
  shows "issues (amount delta) db db' \<and> (\<exists>w. db' = db\<lparr>wallets := w\<rparr>)"
proof -
  obtain a where a: "get_account db name = Inr a" "modify_balance a delta True db = Inr db'"
    using m s by (auto simp: adjust_balance_def result_simps space_legacy_iff)
  obtain i w where iw: "a = (i, w)" by (cases a)
  have wok: "wallets_ok db" using ok by (simp add: assets_ok_def)
  have "map_of (tb_rows (wallets db)) i = Some w"
    using tb_get_Inr(1)[of same_wallet "wallets db"] wok a(1) by (simp add: wallets_ok_def get_account_def iw)
  from modify_balance_total[OF wok this a(2)[unfolded iw]] obtain t where
    t: "db' = db\<lparr>wallets := t\<rparr>" "wallets_ok db'" "wallet_total db' = wallet_total db + amount delta" by blast
  have "issues (amount delta) db db'"
    using ok t by (simp add: issues_def assets_ok_def xgt_in_system_def escrows_ok_def contributions_ok_def no_tokens_issued_def)
  then show ?thesis using t(1) by blast
qed

lemma wallets_modify_issues:
  assumes ok: "assets_ok db" and m: "tb_modify same_wallet i f (wallets db) = Inr t"
    and f: "\<And>w. wa_balance (f w) = wa_balance w"
  shows "issues 0 db (db\<lparr>wallets := t\<rparr>)"
proof -
  obtain v where v: "map_of (tb_rows (wallets db)) i = Some v" using m by (rule tb_modify_Inr)
  have wf: "tb_wf same_wallet (wallets db)" and all: "tb_all (\<lambda>w. xgt_amount (wa_balance w)) (wallets db)"
    using ok by (simp_all add: assets_ok_def wallets_ok_def)
  have "tb_all (\<lambda>w. xgt_amount (wa_balance w)) t"
    using tb_all_modify[OF wf m v all] tb_allD[OF all v] f by simp
  moreover have "tb_sum (\<lambda>w. amount (wa_balance w)) t = tb_sum (\<lambda>w. amount (wa_balance w)) (wallets db)"
    using tb_sum_modify[OF wf m v, of "\<lambda>w. amount (wa_balance w)"] f by simp
  ultimately show ?thesis using ok wallet_table.wf_modify[OF wf m]
    by (simp add: issues_def assets_ok_def xgt_in_system_def asset_defs)
qed

lemma create_wallet_issues:
  assumes ok: "assets_ok db" and m: "create_wallet name key db = Inr db'"
  shows "issues 0 db db'"
proof -
  obtain t where t: "tb_create same_wallet (\<lambda>_. initialize_wallet_object name key (dgp db)) (wallets db) = Inr t"
    "db' = db\<lparr>wallets := t\<rparr>" using m by (auto simp: create_wallet_def result_simps)
  have wf: "tb_wf same_wallet (wallets db)" using ok by (simp add: assets_ok_def wallets_ok_def)
  have b: "wa_balance (initialize_wallet_object name key (dgp db)) = asset_default"
    by (simp add: initialize_wallet_object_def wallet_default_def)
  show ?thesis using ok t(2) wallet_table.wf_create[OF wf t(1)] tb_all_create[OF wf t(1)]
      tb_sum_create[OF wf t(1), of "\<lambda>w. amount (wa_balance w)"] b
    by (simp add: issues_def assets_ok_def xgt_in_system_def asset_defs xgt_amount_def asset_default_def)
qed

lemma create_authority_issues:
  assumes "assets_ok db" "create_authority name r m s db = Inr db'"
  shows "issues 0 db db'"
  using assms by (auto simp: create_authority_def result_simps intro: issues_frame)

lemma escrow_create_issues:
  assumes ok: "assets_ok db" and m: "tb_create same_escrow (\<lambda>_. e) (escrows db) = Inr t"
    and e: "xgt_amount (xgt_balance e)" "xgt_amount (pending_fee e)"
  shows "issues (escrow_funds e) db (db\<lparr>escrows := t\<rparr>)"
proof -
  have wf: "tb_wf same_escrow (escrows db)" using ok by (simp add: assets_ok_def escrows_ok_def)
  show ?thesis using ok e escrow_table.wf_create[OF wf m] tb_all_create[OF wf m] tb_sum_create[OF wf m, of escrow_funds]
    by (simp add: issues_def assets_ok_def xgt_in_system_def asset_defs)
qed

lemma escrow_modify_issues:
  assumes ok: "assets_ok db" and m: "tb_modify same_escrow i f (escrows db) = Inr t"
    and v: "map_of (tb_rows (escrows db)) i = Some e"
    and e: "xgt_amount (xgt_balance (f e))" "xgt_amount (pending_fee (f e))"
  shows "issues (escrow_funds (f e) - escrow_funds e) db (db\<lparr>escrows := t\<rparr>)"
proof -
  have wf: "tb_wf same_escrow (escrows db)"
    and all: "tb_all (\<lambda>e. xgt_amount (xgt_balance e) \<and> xgt_amount (pending_fee e)) (escrows db)"
    using ok by (simp_all add: assets_ok_def escrows_ok_def)
  show ?thesis using ok e escrow_table.wf_modify[OF wf m] tb_all_modify[OF wf m v all] tb_sum_modify[OF wf m v, of escrow_funds]
    by (simp add: issues_def assets_ok_def xgt_in_system_def asset_defs)
qed

lemma escrow_remove_issues:
  assumes ok: "assets_ok db" and m: "tb_remove i (escrows db) = Inr t" and v: "map_of (tb_rows (escrows db)) i = Some e"
  shows "issues (- escrow_funds e) db (db\<lparr>escrows := t\<rparr>)"
proof -
  have wf: "tb_wf same_escrow (escrows db)" using ok by (simp add: assets_ok_def escrows_ok_def)
  show ?thesis using ok tb_wf_remove[OF wf m] tb_all_remove[OF m] tb_sum_remove[OF wf m v, of escrow_funds]
    by (simp add: issues_def assets_ok_def xgt_in_system_def asset_defs)
qed

lemma get_escrow_Inr:
  assumes "assets_ok db" "get_escrow db name k = Inr (i, e)"
  shows "map_of (tb_rows (escrows db)) i = Some e" "es_from e = name" "es_escrow_id e = k"
    "xgt_amount (xgt_balance e)" "xgt_amount (pending_fee e)"
proof -
  have wf: "tb_wf same_escrow (escrows db)"
    and all: "tb_all (\<lambda>e. xgt_amount (xgt_balance e) \<and> xgt_amount (pending_fee e)) (escrows db)"
    using assms(1) by (simp_all add: assets_ok_def escrows_ok_def)
  have "tb_find (\<lambda>e. es_from e = name \<and> es_escrow_id e = k) (escrows db) = Some (i, e)"
    using assms(2) by (simp add: get_escrow_def find_escrow_def result_simps)
  note f = tb_find_Some[OF wf this]
  show "map_of (tb_rows (escrows db)) i = Some e" "es_from e = name" "es_escrow_id e = k"
    "xgt_amount (xgt_balance e)" "xgt_amount (pending_fee e)"
    using f tb_allD[OF all f(1)] by simp_all
qed

lemma escrow_transfer_Inr:
  assumes ok: "assets_ok db" and v: "escrow_transfer_validate env op = Inr ()"
    and m: "escrow_transfer_evaluator op db = Inr db'"
  obtains spent d db1 t where "asset_add (et_xgt_amount op) (et_fee op) = Inr spent" "asset_neg spent = Inr d"
    "adjust_balance (et_from op) d db = Inr db1" "tb_create same_escrow (\<lambda>_. escrow_of op) (escrows db1) = Inr t"
    "db' = db1\<lparr>escrows := t\<rparr>" "symbol (et_fee op) = XGT_SYMBOL" "symbol (et_xgt_amount op) = XGT_SYMBOL"
    "0 \<le> amount (et_fee op)" "0 \<le> amount (et_xgt_amount op)"
proof -
  have sy: "symbol (et_fee op) = XGT_SYMBOL" "symbol (et_xgt_amount op) = XGT_SYMBOL" "0 \<le> amount (et_fee op)" "0 \<le> amount (et_xgt_amount op)"
    using v by (auto simp: escrow_transfer_validate_def result_simps simp del: res_bind_fc_assert)
  obtain a spent d db1 t where a: "get_account db (et_from op) = Inr a" and s: "asset_add (et_xgt_amount op) (et_fee op) = Inr spent"
    and d: "asset_neg spent = Inr d" and b: "adjust_balance_of a d db = Inr db1"
    and t: "tb_create same_escrow (\<lambda>_. escrow_of op) (escrows db1) = Inr t" and db': "db' = db1\<lparr>escrows := t\<rparr>"
    using m sy unfolding escrow_transfer_evaluator_def escrow_of_def by (auto simp: result_simps split: if_splits)
  have "tb_wf same_wallet (wallets db)" using ok by (simp add: assets_ok_def wallets_ok_def)
  then have "wa_name (snd a) = et_from op"
    using tb_get_Inr(2)[of same_wallet "wallets db" _ "fst a" "snd a"] a by (simp add: get_account_def)
  then have "adjust_balance (et_from op) d db = Inr db1" using b adjust_balance_of_name[OF a] by simp
  then show ?thesis using that s d t db' sy by blast
qed

lemma escrow_transfer_issues:
  assumes ok: "assets_ok db" and v: "escrow_transfer_validate env op = Inr ()"
    and m: "escrow_transfer_evaluator op db = Inr db'"
  shows "issues 0 db db'"
  using ok v m
proof (rule escrow_transfer_Inr)
  fix spent d db1 t
  assume s: "asset_add (et_xgt_amount op) (et_fee op) = Inr spent" "asset_neg spent = Inr d"
    "adjust_balance (et_from op) d db = Inr db1" "tb_create same_escrow (\<lambda>_. escrow_of op) (escrows db1) = Inr t"
    "db' = db1\<lparr>escrows := t\<rparr>"
    and sy: "symbol (et_fee op) = XGT_SYMBOL" "symbol (et_xgt_amount op) = XGT_SYMBOL"
    "0 \<le> amount (et_fee op)" "0 \<le> amount (et_xgt_amount op)"
  note s' = asset_add_Inr[OF s(1)] and d' = asset_neg_Inr[OF s(2)]
  have i1: "issues (amount d) db db1" using adjust_xgt_issues[OF ok _ s(3)] d' s' sy by simp
  then have "assets_ok db1" by (simp add: issues_def)
  from escrow_create_issues[OF this s(4)] have "issues (amount (et_xgt_amount op) + amount (et_fee op)) db1 db'"
    using sy by (simp add: xgt_amount_def escrow_funds_def s(5) escrow_of_def)
  from issues_trans[OF i1 this] show ?thesis using d' s' by simp
qed

lemma approve_as_Inr:
  assumes "approve_as p ap f g msg i (e, db) = Inr (e', db')"
  shows "(e' = e \<and> db' = db) \<or> (p \<and> ap \<and> \<not> f e \<and> e' = g e \<and> (\<exists>t. tb_modify same_escrow i g (escrows db) = Inr t \<and> db' = db\<lparr>escrows := t\<rparr>))"
  using assms by (auto simp: approve_as_def result_simps split: if_splits)

lemma approve_as_issues:
  assumes ok: "assets_ok db" and a: "approve_as p ap f g msg i (e, db) = Inr (e', db')"
    and v: "map_of (tb_rows (escrows db)) i = Some e"
    and g: "\<And>e. xgt_balance (g e) = xgt_balance e \<and> pending_fee (g e) = pending_fee e"
  shows "issues 0 db db' \<and> map_of (tb_rows (escrows db')) i = Some e'
    \<and> xgt_balance e' = xgt_balance e \<and> pending_fee e' = pending_fee e"
  using approve_as_Inr[OF a]
proof (elim disjE conjE exE)
  assume "e' = e" "db' = db" then show ?thesis using issues_refl[OF ok] v by simp
next
  fix t assume t: "tb_modify same_escrow i g (escrows db) = Inr t" "db' = db\<lparr>escrows := t\<rparr>" "e' = g e"
  have "xgt_amount (xgt_balance e)" "xgt_amount (pending_fee e)"
    using tb_allD[OF _ v, of "\<lambda>e. xgt_amount (xgt_balance e) \<and> xgt_amount (pending_fee e)"] ok
    by (simp_all add: assets_ok_def escrows_ok_def)
  then have "issues 0 db db'" using escrow_modify_issues[OF ok t(1) v] g[of e] t(2) by (simp add: escrow_funds_def)
  moreover have "map_of (tb_rows t) i = Some (g e)" using t(1) v by (auto elim!: tb_modify_Inr)
  ultimately show ?thesis using t(2,3) g by simp
qed

lemma escrow_settle_issues:
  assumes ok: "assets_ok db" and p: "xgt_amount (xgt_balance e)" "xgt_amount (pending_fee e)" "map_of (tb_rows (escrows db)) i = Some e"
    and r: "settle_escrow op i e db = Inr db'"
  shows "issues 0 db db'"
proof -
  consider (reject) "\<not> ea_approve op" | (settle) "ea_approve op" "to_approved e \<and> agent_approved e"
    | (wait) "ea_approve op" "\<not> (to_approved e \<and> agent_approved e)" by blast
  then show ?thesis
  proof cases
    case reject
    then obtain db1 db2 t where d: "adjust_balance (ea_from op) (xgt_balance e) db = Inr db1"
      "adjust_balance (ea_from op) (pending_fee e) db1 = Inr db2" "tb_remove i (escrows db2) = Inr t" "db' = db2\<lparr>escrows := t\<rparr>"
      using r by (auto simp: settle_escrow_def result_simps)
    from adjust_xgt_issues[OF ok _ d(1)] p(1) have i1: "issues (amount (xgt_balance e)) db db1" "escrows db1 = escrows db"
      by (auto simp: xgt_amount_def)
    then have ok1: "assets_ok db1" by (simp add: issues_def)
    from adjust_xgt_issues[OF ok1 _ d(2)] p(2) have i2: "issues (amount (pending_fee e)) db1 db2" "escrows db2 = escrows db"
      using i1(2) by (auto simp: xgt_amount_def)
    then have ok2: "assets_ok db2" by (simp add: issues_def)
    from escrow_remove_issues[OF ok2 d(3)] p(3) have "issues (- escrow_funds e) db2 db'" by (simp add: i2(2) d(4))
    from issues_trans[OF issues_trans[OF i1(1) i2(1)] this] show ?thesis by (simp add: escrow_funds_def)
  next
    case settle
    then obtain db1 t where d: "adjust_balance (ea_agent op) (pending_fee e) db = Inr db1"
      "tb_modify same_escrow i (\<lambda>e. e\<lparr>pending_fee := (pending_fee e)\<lparr>amount := 0\<rparr>\<rparr>) (escrows db1) = Inr t" "db' = db1\<lparr>escrows := t\<rparr>"
      using r by (auto simp: settle_escrow_def result_simps)
    from adjust_xgt_issues[OF ok _ d(1)] p(2) have i1: "issues (amount (pending_fee e)) db db1" "escrows db1 = escrows db"
      by (auto simp: xgt_amount_def)
    then have ok1: "assets_ok db1" by (simp add: issues_def)
    have v: "map_of (tb_rows (escrows db1)) i = Some e" using p(3) i1(2) by simp
    from escrow_modify_issues[OF ok1 d(2) v] p have "issues (- amount (pending_fee e)) db1 db'"
      by (simp add: d(3) escrow_funds_def xgt_amount_def)
    from issues_trans[OF i1(1) this] show ?thesis by simp
  next
    case wait then show ?thesis using r issues_refl[OF ok] by (auto simp: settle_escrow_def)
  qed
qed

lemma escrow_dispute_issues:
  assumes ok: "assets_ok db" and m: "escrow_dispute_evaluator op db = Inr db'"
  shows "issues 0 db db'"
proof -
  obtain i e t where e: "get_escrow db (ed_from op) (ed_escrow_id op) = Inr (i, e)"
    and t: "tb_modify same_escrow i (\<lambda>e. e\<lparr>disputed := True\<rparr>) (escrows db) = Inr t" "db' = db\<lparr>escrows := t\<rparr>"
    using m by (auto simp: escrow_dispute_evaluator_def result_simps split: if_splits)
  note x = get_escrow_Inr[OF ok e]
  from escrow_modify_issues[OF ok t(1) x(1)] x show ?thesis by (simp add: t(2) escrow_funds_def)
qed

lemma escrow_release_issues:
  assumes ok: "assets_ok db" "fees_paid db" and m: "escrow_release_evaluator op db = Inr db'"
  shows "issues 0 db db'"
proof -
  obtain i e q db1 rest t where e: "get_escrow db (er_from op) (er_escrow_id op) = Inr (i, e)"
    and g: "asset_greater_eq (xgt_balance e) (er_xgt_amount op) = Inr q" "q"
    and ap: "to_approved e" "agent_approved e"
    and b: "adjust_balance (er_receiver op) (er_xgt_amount op) db = Inr db1"
    and rest: "asset_sub (xgt_balance e) (er_xgt_amount op) = Inr rest"
    and t: "tb_modify same_escrow i (\<lambda>e. e\<lparr>xgt_balance := rest\<rparr>) (escrows db1) = Inr t"
    and r: "(if amount rest = 0 then on_escrows (tb_remove i) (db1\<lparr>escrows := t\<rparr>) else Inr (db1\<lparr>escrows := t\<rparr>)) = Inr db'"
    using m unfolding escrow_release_evaluator_def res_bind_Inr on_table_Inr fc_assert_Inr split_paired_Ex case_prod_conv
    by (elim exE conjE) (hypsubst, rule that, assumption+)
  note x = get_escrow_Inr[OF ok(1) e]
  note rs = asset_sub_Inr[OF rest]
  have ge: "amount (er_xgt_amount op) \<le> amount (xgt_balance e)"
    using g by (auto simp: asset_greater_eq_def asset_compare_def split: if_splits)
  have sy: "symbol (er_xgt_amount op) = XGT_SYMBOL" using rs x(4) by (simp add: xgt_amount_def)
  from adjust_xgt_issues[OF ok(1) sy b] have i1: "issues (amount (er_xgt_amount op)) db db1" "escrows db1 = escrows db" by auto
  then have ok1: "assets_ok db1" by (simp add: issues_def)
  have v: "map_of (tb_rows (escrows db1)) i = Some e" using x(1) i1(2) by simp
  from escrow_modify_issues[OF ok1 t v] x(4,5) rs ge
  have i2: "issues (- amount (er_xgt_amount op)) db1 (db1\<lparr>escrows := t\<rparr>)"
    by (simp add: escrow_funds_def xgt_amount_def)
  then have ok2: "assets_ok (db1\<lparr>escrows := t\<rparr>)" by (simp add: issues_def)
  have v2: "map_of (tb_rows t) i = Some (e\<lparr>xgt_balance := rest\<rparr>)" using t v by (auto elim!: tb_modify_Inr)
  have i3: "issues 0 db (db1\<lparr>escrows := t\<rparr>)" using issues_trans[OF i1(1) i2] by simp
  show ?thesis
  proof (cases "amount rest = 0")
    case True
    then obtain t' where "tb_remove i t = Inr t'" "db' = db1\<lparr>escrows := t'\<rparr>" using r by (auto simp: result_simps)
    with escrow_remove_issues[OF ok2, of i t'] v2 True
    have "issues (- amount (pending_fee e)) (db1\<lparr>escrows := t\<rparr>) db'" by (simp add: escrow_funds_def)
    moreover have "amount (pending_fee e) = 0"
      using tb_allD[OF ok(2)[unfolded fees_paid_def] x(1)] ap by (simp add: is_approved_def)
    ultimately show ?thesis using issues_trans[OF i3, of "- amount (pending_fee e)"] by simp
  next
    case False then show ?thesis using r i3 by simp
  qed
qed

lemma keeps_trans: "keeps x db db1 \<Longrightarrow> keeps y db1 db2 \<Longrightarrow> keeps (x + y) db db2"
  using issues_trans by (fastforce simp: keeps_def)

lemma keeps_ok: "keeps x db db' \<Longrightarrow> assets_ok db'"
  by (simp add: keeps_def issues_def)

lemma keeps_refl: "assets_ok db \<Longrightarrow> keeps 0 db db"
  by (simp add: keeps_def issues_refl)

lemma keeps_frame:
  assumes "assets_ok db" "wallets db' = wallets db" "escrows db' = escrows db" "contributions db' = contributions db"
    "balances db' = balances db" "tokens db' = tokens db"
  shows "keeps 0 db db'"
  using issues_frame[OF assms] assms(3) by (simp add: keeps_def)

lemma keeps_zero_trans: "keeps 0 db db1 \<Longrightarrow> keeps x db1 db2 \<Longrightarrow> keeps x db db2"
  using keeps_trans[of 0 db db1 x db2] by simp

lemma keeps_trans_zero: "keeps x db db1 \<Longrightarrow> keeps 0 db1 db2 \<Longrightarrow> keeps x db db2"
  using keeps_trans[of x db db1 0 db2] by simp

lemma adjust_xgt_keeps:
  "assets_ok db \<Longrightarrow> symbol delta = XGT_SYMBOL \<Longrightarrow> adjust_balance name delta db = Inr db' \<Longrightarrow> keeps (amount delta) db db'"
  using adjust_xgt_issues by (fastforce simp: keeps_def)

lemma wallets_modify_keeps:
  assumes "assets_ok db" "on_wallets (tb_modify same_wallet i f) db = Inr db'" "\<And>w. wa_balance (f w) = wa_balance w"
  shows "keeps 0 db db'"
  using wallets_modify_issues[OF assms(1) _ assms(3)] assms(2) by (auto simp: keeps_def result_simps)

lemma create_wallet_keeps: "assets_ok db \<Longrightarrow> create_wallet name key db = Inr db' \<Longrightarrow> keeps 0 db db'"
  using create_wallet_issues by (auto simp: keeps_def create_wallet_def result_simps)

lemma create_authority_keeps: "assets_ok db \<Longrightarrow> create_authority name r m s db = Inr db' \<Longrightarrow> keeps 0 db db'"
  using create_authority_issues by (auto simp: keeps_def create_authority_def result_simps)

lemma no_token_payment:
  assumes ok: "assets_ok db" and s: "symbol x \<noteq> XGT_SYMBOL" "amount x > 0" and d: "asset_neg x = Inr d"
  shows "adjust_balance name d db \<noteq> Inr db'"
proof -
  have "xtt_balance db name (symbol d) = \<lparr>amount = 0, symbol = symbol d\<rparr>"
    using ok by (simp add: xtt_balance_def find_balance_def assets_ok_def no_tokens_issued_def tb_empty_def tb_find_def)
  then show ?thesis using asset_neg_Inr[OF d] s
    by (auto simp: adjust_balance_def check_funds_def get_balance_def space_legacy_iff result_simps asset_greater_eq_def
        asset_compare_def asset_neg_def safe_neg_def simp del: res_bind_fc_assert split: if_splits)
qed

lemma pay_keeps:
  assumes ok: "assets_ok db" and x: "amount x > 0" and d: "asset_neg x = Inr d"
    and m: "adjust_balance payer d db = Inr db1" "adjust_balance payee x db1 = Inr db2"
  shows "keeps 0 db db2"
proof -
  have s: "symbol x = XGT_SYMBOL" using no_token_payment[OF ok _ x d] m(1) by blast
  note d' = asset_neg_Inr[OF d]
  have "keeps (amount d) db db1" using adjust_xgt_keeps[OF ok _ m(1)] d' s by simp
  moreover from keeps_ok[OF this] have "keeps (amount x) db1 db2" using adjust_xgt_keeps[OF _ s m(2)] by simp
  ultimately show ?thesis using keeps_trans d' by fastforce
qed

lemma transfer_keeps:
  assumes ok: "assets_ok db" and v: "transfer_validate op = Inr ()" and m: "transfer_evaluator ctx op db = Inr db'"
  shows "keeps 0 db db'"
proof -
  have x: "amount (tr_amount op) > 0" using v by (auto simp: transfer_validate_def result_simps simp del: res_bind_fc_assert)
  obtain db0 d db1 where c: "(case find_account db (tr_to op) of
        Some a \<Rightarrow> Inr db
      | None \<Rightarrow> (case random_keys ctx op db of (recovery, money, social, memo) \<Rightarrow>
          res_bind (create_wallet (tr_to op) memo db) (\<lambda>db.
            create_authority (tr_to op) (key_authority recovery) (key_authority money) (key_authority social) db))) = Inr db0"
    and d: "asset_neg (tr_amount op) = Inr d" "adjust_balance (tr_from op) d db0 = Inr db1" "adjust_balance (tr_to op) (tr_amount op) db1 = Inr db'"
    using m unfolding transfer_evaluator_def res_bind_Inr by blast
  have k: "keeps 0 db db0"
  proof (cases "find_account db (tr_to op)")
    case None
    then show ?thesis using c create_wallet_keeps[OF ok] keeps_zero_trans[OF _ create_authority_keeps] keeps_ok
      by (fastforce simp: result_simps split: prod.splits)
  next
    case (Some a) then show ?thesis using c keeps_refl[OF ok] by simp
  qed
  from keeps_zero_trans[OF k pay_keeps[OF keeps_ok[OF k] x d]] show ?thesis .
qed

lemma wallet_create_keeps:
  assumes "assets_ok db" "wallet_create_evaluator ctx op db = Inr db'"
  shows "keeps 0 db db'"
  using assms create_wallet_keeps keeps_zero_trans[OF _ create_authority_keeps] keeps_ok
  by (fastforce simp: wallet_create_evaluator_def result_simps Let_def)

lemma update_recovery_keeps:
  assumes "assets_ok db" "update_recovery_authority a r db = Inr db'"
  shows "keeps 0 db db'"
  using assms(2) by (intro keeps_frame[OF assms(1)])
    (auto simp: update_recovery_authority_def result_simps split: if_splits)

lemma upsert_keeps:
  assumes "assets_ok db" "upsert_wallet op db = Inr db'"
  shows "keeps 0 db db'"
  using assms create_wallet_keeps[OF assms(1)] keeps_zero_trans[OF _ create_authority_keeps] keeps_ok keeps_refl[OF assms(1)]
  by (fastforce simp: upsert_wallet_def result_simps split: option.splits)

lemma update_metadata_keeps:
  assumes "assets_ok db" "update_metadata op i db = Inr db'"
  shows "keeps 0 db db'"
  using assms(2) by (intro keeps_frame[OF assms(1)]) (auto simp: update_metadata_def result_simps split: if_splits)

lemma wallet_update_parts_keep:
  "assets_ok db \<Longrightarrow> change_recovery op w a db = Inr db' \<Longrightarrow> keeps 0 db db'"
  "assets_ok db \<Longrightarrow> touch_wallet op i db = Inr db' \<Longrightarrow> keeps 0 db db'"
  "assets_ok db \<Longrightarrow> change_authorities op i db = Inr db' \<Longrightarrow> keeps 0 db db'"
proof -
  show "assets_ok db \<Longrightarrow> change_recovery op w a db = Inr db' \<Longrightarrow> keeps 0 db db'"
    using update_recovery_keeps keeps_refl by (auto simp: change_recovery_def result_simps split: option.splits if_splits)
  show "assets_ok db \<Longrightarrow> touch_wallet op i db = Inr db' \<Longrightarrow> keeps 0 db db'"
    unfolding touch_wallet_def by (erule (1) wallets_modify_keeps) simp
  show "assets_ok db \<Longrightarrow> change_authorities op i db = Inr db' \<Longrightarrow> keeps 0 db db'"
    by (auto simp: change_authorities_def result_simps split: if_splits intro: keeps_frame)
qed

lemma wallet_update_keeps:
  assumes ok: "assets_ok db" and m: "wallet_update_evaluator op db = Inr db'"
  shows "keeps 0 db db'"
proof -
  obtain db1 i w j a db2 db3 db4 where s: "upsert_wallet op db = Inr db1" "change_recovery op w a db1 = Inr db2"
    "touch_wallet op i db2 = Inr db3" "update_metadata op i db3 = Inr db4" "change_authorities op j db4 = Inr db'"
    using m unfolding wallet_update_evaluator_def res_bind_Inr split_paired_Ex case_prod_conv by blast
  have k1: "keeps 0 db db1" using upsert_keeps[OF ok s(1)] .
  have k2: "keeps 0 db1 db2" by (rule wallet_update_parts_keep(1)[OF keeps_ok[OF k1] s(2)])
  have k3: "keeps 0 db2 db3" by (rule wallet_update_parts_keep(2)[OF keeps_ok[OF k2] s(3)])
  have k4: "keeps 0 db3 db4" by (rule update_metadata_keeps[OF keeps_ok[OF k3] s(4)])
  have k5: "keeps 0 db4 db'" by (rule wallet_update_parts_keep(3)[OF keeps_ok[OF k4] s(5)])
  show ?thesis using k1 k2 k3 k4 k5 keeps_zero_trans by blast
qed

lemma witness_update_keeps:
  assumes "assets_ok db" "witness_update_evaluator op db = Inr db'"
  shows "keeps 0 db db'"
  using assms(2) by (intro keeps_frame[OF assms(1)])
    (auto simp: witness_update_evaluator_def result_simps split: if_splits option.splits)

lemma delete_comment_keeps:
  assumes "assets_ok db" "delete_comment_evaluator op db = Inr db'"
  shows "keeps 0 db db'"
  using assms(2) by (intro keeps_frame[OF assms(1)])
    (auto simp: delete_comment_evaluator_def result_simps Let_def split: if_splits)

lemma comment_options_keeps:
  assumes "assets_ok db" "comment_options_evaluator op db = Inr db'"
  shows "keeps 0 db db'"
  using assms(2) by (intro keeps_frame[OF assms(1)])
    (auto simp: comment_options_evaluator_def result_simps split: if_splits)

lemma bump_parents_keeps:
  assumes "assets_ok db" "bump_parents n i db = Inr db'"
  shows "keeps 0 db db'"
  using assms
proof (induction n arbitrary: i db)
  case (Suc n)
  obtain db1 p where d: "on_comments (tb_modify same_comment i
      (\<lambda>p. p\<lparr>children := children p + 1, active := head_block_time db\<rparr>)) db = Inr db1"
    "map_of (tb_rows (comments db1)) i = Some p"
    "(if parent_author p \<noteq> XGT_ROOT_POST_PARENT then
        res_bind (get_comment db1 (parent_author p) (parent_permlink p)) (\<lambda>(j, q). bump_parents n j db1)
      else Inr db1) = Inr db'"
    using Suc.prems(2) by (auto simp: result_simps simp del: res_bind_fc_assert)
  have k: "keeps 0 db db1" using d(1) by (intro keeps_frame[OF Suc.prems(1)]) (auto simp: result_simps)
  show ?case
  proof (cases "parent_author p \<noteq> XGT_ROOT_POST_PARENT")
    case True
    then obtain j q where "get_comment db1 (parent_author p) (parent_permlink p) = Inr (j, q)" "bump_parents n j db1 = Inr db'"
      using d(3) by (auto simp: result_simps)
    then have "keeps 0 db1 db'" using Suc.IH keeps_ok[OF k] by blast
    with k show ?thesis by (rule keeps_zero_trans)
  next
    case False then show ?thesis using d(3) k by simp
  qed
qed simp

lemma create_comment_keeps:
  assumes ok: "assets_ok db" and m: "create_comment op auth parent db = Inr db'"
  shows "keeps 0 db db'"
proof -
  obtain db1 db2 db3 where s: "on_wallets (tb_modify same_wallet (fst auth) (\<lambda>a. a\<lparr>
         last_root_post := if parent = None then head_block_time db else last_root_post a,
         last_post := head_block_time db, last_post_edit := head_block_time db, post_count := post_count a + 1\<rparr>)) db = Inr db1"
    "on_comments (tb_create same_comment (new_comment op (map_option snd parent) (head_block_time db))) db1 = Inr db2"
    "on_contents (tb_create same_content (\<lambda>_. \<lparr>con_comment = tb_next (comments db1), con_title = cm_title op,
         con_body = if length (cm_body op) < 1024 * 1024 * 128 then cm_body op else [],
         con_json_metadata = cm_json_metadata op\<rparr>)) db2 = Inr db3"
    "(case parent of None \<Rightarrow> Inr db3 | Some (j, p) \<Rightarrow> bump_parents (Suc (length (tb_rows (comments db3)))) j db3) = Inr db'"
    using m unfolding create_comment_def Let_def res_bind_Inr by (elim exE conjE) (rule that, assumption+)
  have k1: "keeps 0 db db1" by (rule wallets_modify_keeps[OF ok s(1)]) simp
  have k2: "keeps 0 db1 db2" using s(2) by (intro keeps_frame[OF keeps_ok[OF k1]]) (auto simp: result_simps)
  have k3: "keeps 0 db2 db3" using s(3) by (intro keeps_frame[OF keeps_ok[OF k2]]) (auto simp: result_simps)
  have k4: "keeps 0 db3 db'" using s(4) bump_parents_keeps[OF keeps_ok[OF k3]] keeps_refl[OF keeps_ok[OF k3]]
    by (auto simp del: bump_parents.simps split: option.splits)
  show ?thesis using k1 k2 k3 k4 keeps_zero_trans by blast
qed

lemma edit_comment_keeps:
  assumes ok: "assets_ok db" and m: "edit_comment op auth com hp db = Inr db'"
  shows "keeps 0 db db'"
proof -
  obtain db1 where s: "on_comments (tb_modify same_comment (fst com)
      (\<lambda>c. c\<lparr>last_update := head_block_time db, active := head_block_time db\<rparr>)) db = Inr db1"
    "on_wallets (tb_modify same_wallet (fst auth) (\<lambda>a. a\<lparr>last_post_edit := head_block_time db\<rparr>)) db1 = Inr db'"
    using m unfolding edit_comment_def Let_def res_bind_Inr by (elim exE conjE) (rule that, assumption+)
  have k1: "keeps 0 db db1" using s(1) by (intro keeps_frame[OF ok]) (auto simp: result_simps)
  have "keeps 0 db1 db'" by (rule wallets_modify_keeps[OF keeps_ok[OF k1] s(2)]) simp
  with k1 show ?thesis by (rule keeps_zero_trans)
qed

lemma comment_keeps:
  assumes "assets_ok db" "comment_evaluator op db = Inr db'"
  shows "keeps 0 db db'"
  using assms(2) create_comment_keeps[OF assms(1)] edit_comment_keeps[OF assms(1)]
  unfolding comment_evaluator_def res_bind_Inr
  by (elim exE conjE) (auto split: option.splits)

lemma vote_keeps:
  assumes "assets_ok db" "vote_evaluator op db = Inr db'"
  shows "keeps 0 db db'"
  using assms(2) by (intro keeps_frame[OF assms(1)]) (auto simp: vote_evaluator_def result_simps)

lemma custom_keeps:
  assumes "assets_ok db" "custom_evaluator ctx op db = Inr db'"
  shows "keeps 0 db db'"
  using assms keeps_refl[OF assms(1)] by (auto simp: custom_evaluator_def result_simps split: if_splits)

lemma custom_json_keeps:
  assumes ok: "assets_ok db" and i: "interpreters_keep ctx" and m: "custom_json_evaluator ctx op db = Inr db'"
  shows "keeps 0 db db'"
proof -
  have "(case custom_interpreters ctx (cj_id op) of
      None \<Rightarrow> Inr db
    | Some eval \<Rightarrow> (case eval op db of
          Inr db \<Rightarrow> Inr db
        | Inl e \<Rightarrow> if is_fc_exception e \<and> is_producing ctx then Inl e else Inr db)) = Inr db'"
    using m unfolding custom_json_evaluator_def res_bind_Inr by blast
  then consider "db' = db" | f where "custom_interpreters ctx (cj_id op) = Some f" "f op db = Inr db'"
    by (auto split: option.splits sum.splits if_splits)
  then show ?thesis
  proof cases
    case 1 then show ?thesis using keeps_refl[OF ok] by simp
  next
    case 2
    then show ?thesis using i unfolding interpreters_keep_def by (intro keeps_frame[OF ok]) metis+
  qed
qed

lemma contract_create_keeps:
  assumes "assets_ok db" "contract_create_evaluator op db = Inr db'"
  shows "keeps 0 db db'"
  using assms(2) by (intro keeps_frame[OF assms(1)]) (auto simp: contract_create_evaluator_def result_simps)

lemma mining_reward_constant:
  assumes "head < 2116800" shows "mining_reward head = XGT_MINING_REWARD"
proof -
  have "unat head < 2116800" using assms by (simp add: word_less_nat_alt)
  then show ?thesis
    by (simp add: mining_reward_def XGT_STARTING_OFFSET_def XGT_MINING_REWARD_HALVING_INTERVAL_def Let_def)
qed

lemma create_miner_keeps:
  assumes ok: "assets_ok db" and m: "create_miner worker key op db = Inr db'"
  shows "keeps 0 db db'"
proof -
  obtain db1 db2 props t where s: "create_wallet worker key db = Inr db1"
    "create_authority worker (key_authority key) (key_authority key) (key_authority key) db1 = Inr db2" "db' = db2\<lparr>witnesses := t\<rparr>"
    using m by (auto simp: create_miner_def result_simps)
  have k1: "keeps 0 db db1" using create_wallet_keeps[OF ok s(1)] .
  have k2: "keeps 0 db1 db2" using create_authority_keeps[OF keeps_ok[OF k1] s(2)] .
  have "keeps 0 db2 db'" by (rule keeps_frame[OF keeps_ok[OF k2]]) (simp_all add: s(3))
  then show ?thesis using k1 k2 keeps_zero_trans by blast
qed

lemma reward_worker_keeps:
  assumes ok: "assets_ok db" and r: "symbol reward = XGT_SYMBOL" and m: "reward_worker worker reward op db = Inr db'"
  shows "keeps 0 db db' \<or> keeps (amount reward) db db'"
proof (cases "find_witness db worker")
  case None then show ?thesis using m keeps_refl[OF ok] by (simp add: reward_worker_def)
next
  case (Some w)
  then obtain t where t: "adjust_balance worker reward (db\<lparr>witnesses := t\<rparr>) = Inr db'"
    using m by (auto simp: reward_worker_def result_simps split: prod.splits)
  have k: "keeps 0 db (db\<lparr>witnesses := t\<rparr>)" by (rule keeps_frame[OF ok]) simp_all
  from keeps_zero_trans[OF k adjust_xgt_keeps[OF keeps_ok[OF k] r t]] show ?thesis ..
qed

lemma pow_keeps:
  assumes ok: "assets_ok db" and m: "pow_evaluator ctx op db = Inr db'"
  shows "keeps 0 db db' \<or> keeps (amount XGT_MINING_REWARD) db db'"
proof (cases "head_block_num db \<ge> 2116800")
  case True then show ?thesis using m keeps_refl[OF ok] by (simp add: pow_evaluator_def)
next
  case False
  then have rw: "mining_reward (head_block_number (dgp db)) = XGT_MINING_REWARD"
    using mining_reward_constant by (simp add: head_block_num_def not_le)
  define db1 where "db1 = db\<lparr>dgp := (dgp db)\<lparr>total_pow := total_pow (dgp db) + 1, num_pow_witnesses := num_pow_witnesses (dgp db) + 1\<rparr>\<rparr>"
  have hb: "head_block_number (dgp db1) = head_block_number (dgp db)" by (simp add: db1_def)
  have k: "keeps 0 db db1" by (rule keeps_frame[OF ok]) (simp_all add: db1_def)
  have sy: "symbol XGT_MINING_REWARD = XGT_SYMBOL" by (simp add: XGT_MINING_REWARD_def)
  obtain worker where r: "(case find_account db1 worker of
            Some a \<Rightarrow> reward_worker worker XGT_MINING_REWARD op db1
          | None \<Rightarrow> (case po_new_recovery_key op of
                None \<Rightarrow> Inr db1
              | Some key \<Rightarrow> res_bind (create_miner worker key op db1) (reward_worker worker XGT_MINING_REWARD op))) = Inr db'"
    using m False unfolding pow_evaluator_def Let_def db1_def[symmetric] hb rw
    by (auto simp: res_bind_Inr split: pow_work.splits)
  have "keeps 0 db1 db' \<or> keeps (amount XGT_MINING_REWARD) db1 db'"
  proof (cases "find_account db1 worker")
    case None
    show ?thesis
    proof (cases "po_new_recovery_key op")
      case (Some key)
      then obtain db2 where c: "create_miner worker key op db1 = Inr db2" "reward_worker worker XGT_MINING_REWARD op db2 = Inr db'"
        using r None by (auto simp: result_simps)
      have k2: "keeps 0 db1 db2" using create_miner_keeps[OF keeps_ok[OF k] c(1)] .
      show ?thesis using reward_worker_keeps[OF keeps_ok[OF k2] sy c(2)] keeps_zero_trans[OF k2] by blast
    qed (use r None keeps_refl[OF keeps_ok[OF k]] in simp)
  next
    case (Some a) then show ?thesis using r reward_worker_keeps[OF keeps_ok[OF k] sy] by simp
  qed
  then show ?thesis using keeps_zero_trans[OF k] by blast
qed

lemma tokens_update_keeps:
  assumes "assets_ok db" "tb_wf same_token t" "tb_all (\<lambda>t. tk_current_supply t = 0) t"
  shows "keeps 0 db (db\<lparr>tokens := t\<rparr>)"
  using assms by (simp add: keeps_def issues_def assets_ok_def xgt_in_system_def asset_defs)

lemma assets_ok_tokens:
  "assets_ok db \<Longrightarrow> tb_wf same_token (tokens db)" "assets_ok db \<Longrightarrow> tb_all (\<lambda>t. tk_current_supply t = 0) (tokens db)"
  by (simp_all add: assets_ok_def no_tokens_issued_def)

lemma tokens_modify_keeps:
  assumes ok: "assets_ok db" and m: "on_tokens (tb_modify same_token i f) db = Inr db'"
    and f: "\<And>t. tk_current_supply (f t) = tk_current_supply t"
  shows "keeps 0 db db'"
proof -
  obtain t where t: "tb_modify same_token i f (tokens db) = Inr t" "db' = db\<lparr>tokens := t\<rparr>"
    using m by (auto simp: result_simps)
  note wf = assets_ok_tokens[OF ok]
  obtain v where v: "map_of (tb_rows (tokens db)) i = Some v" using t(1) by (rule tb_modify_Inr)
  have "tb_all (\<lambda>t. tk_current_supply t = 0) t"
    using tb_all_modify[OF wf(1) t(1) v wf(2)] tb_allD[OF wf(2) v] f by simp
  then show ?thesis using tokens_update_keeps[OF ok token_table.wf_modify[OF wf(1) t(1)]] t(2) by simp
qed

lemma set_phase_keeps: "assets_ok db \<Longrightarrow> set_phase i p db = Inr db' \<Longrightarrow> keeps 0 db db'"
  unfolding set_phase_def by (erule (1) tokens_modify_keeps) simp

lemma push_required_action_keeps:
  assumes "assets_ok db" "push_required_action ctx a x db = Inr db'"
  shows "keeps 0 db db'"
  using assms(2) by (intro keeps_frame[OF assms(1)]) (auto simp: push_required_action_def result_simps split: if_splits)

lemma apply_setup_parameters_supply:
  "tk_current_supply (fold apply_setup_parameter ps t) = tk_current_supply t"
proof (induction ps arbitrary: t)
  case (Cons p ps) then show ?case by (cases p) simp
qed simp

lemma apply_runtime_parameters_supply:
  "tk_current_supply (fold apply_runtime_parameter ps t) = tk_current_supply t"
proof (induction ps arbitrary: t)
  case (Cons p ps) then show ?case by (cases p) simp_all
qed simp

lemma xtt_parameters_keep:
  "assets_ok db \<Longrightarrow> xtt_set_setup_parameters_evaluator op1 db = Inr db' \<Longrightarrow> keeps 0 db db'"
  "assets_ok db \<Longrightarrow> xtt_set_runtime_parameters_evaluator op2 db = Inr db' \<Longrightarrow> keeps 0 db db'"
  unfolding xtt_set_setup_parameters_evaluator_def xtt_set_runtime_parameters_evaluator_def res_bind_Inr
  by (elim exE conjE, clarsimp, erule (1) tokens_modify_keeps,
      simp add: apply_setup_parameters_supply apply_runtime_parameters_supply)+

lemma xtt_setup_ico_tier_Inr:
  assumes "xtt_setup_ico_tier_evaluator op db = Inr db'"
  obtains t where "db' = db\<lparr>ico_tiers := t\<rparr>"
proof (cases "xt_remove op")
  case True
  then have "\<exists>j. on_ico_tiers (tb_remove j) db = Inr db'"
    using assms unfolding xtt_setup_ico_tier_evaluator_def res_bind_Inr
    by (elim exE conjE) (simp split: prod.splits option.splits; blast)
  then show ?thesis using that unfolding on_table_Inr by blast
next
  case False
  show ?thesis using assms that
    unfolding xtt_setup_ico_tier_evaluator_def if_not_P[OF False] res_bind_Inr on_table_Inr split_paired_Ex case_prod_conv by blast
qed

lemma xtt_setup_ico_tier_keeps:
  assumes "assets_ok db" "xtt_setup_ico_tier_evaluator op db = Inr db'"
  shows "keeps 0 db db'"
  using assms(2) by (rule xtt_setup_ico_tier_Inr) (intro keeps_frame[OF assms(1)]; simp)

lemma xtt_setup_keeps:
  assumes ok: "assets_ok db" and m: "xtt_setup_evaluator ctx op db = Inr db'"
  shows "keeps 0 db db'"
proof -
  obtain i token db1 t db3 a x where s:
    "on_tokens (tb_modify same_token i (\<lambda>t. t\<lparr>phase := Setup_Completed, tk_max_supply := xs_max_supply op\<rparr>)) db = Inr db1"
    "push_required_action ctx a x (db1\<lparr>icos := t\<rparr>) = Inr db'"
    using m unfolding xtt_setup_evaluator_def res_bind_Inr split_paired_Ex case_prod_conv on_table_Inr(11) by blast
  have k1: "keeps 0 db db1" by (rule tokens_modify_keeps[OF ok s(1)]) simp
  have k2: "keeps 0 db1 (db1\<lparr>icos := t\<rparr>)" by (rule keeps_frame[OF keeps_ok[OF k1]]) simp_all
  have "keeps 0 (db1\<lparr>icos := t\<rparr>) db'" using push_required_action_keeps[OF keeps_ok[OF k2] s(2)] .
  then show ?thesis using k1 k2 keeps_zero_trans by blast
qed

lemma create_or_reset_keeps:
  assumes ok: "assets_ok db" and m: "create_or_reset op ptr db = Inr db'"
  shows "keeps 0 db db'"
proof (cases "amount (xc_xtt_creation_fee op) > 0")
  case True
  then obtain d db1 where d: "asset_neg (xc_xtt_creation_fee op) = Inr d" "adjust_balance (xc_control_account op) d db = Inr db1"
    "adjust_balance XGT_NULL_WALLET (xc_xtt_creation_fee op) db1 = Inr db'"
    using m unfolding create_or_reset_def by (auto simp: res_bind_Inr simp del: res_bind_fc_assert)
  show ?thesis using pay_keeps[OF ok True d] .
next
  case False
  then obtain i token where "ptr = Some (i, token)" "on_tokens (tb_remove i) db = Inr db'"
    using m by (auto simp: create_or_reset_def res_bind_Inr simp del: res_bind_fc_assert split: option.splits)
  then obtain t where t: "tb_remove i (tokens db) = Inr t" "db' = db\<lparr>tokens := t\<rparr>" by (auto simp: result_simps)
  show ?thesis using tokens_update_keeps[OF ok tb_wf_remove[OF assets_ok_tokens(1)[OF ok] t(1)]
      tb_all_remove[OF t(1) assets_ok_tokens(2)[OF ok]]] t(2) by simp
qed

lemma xtt_create_keeps:
  assumes ok: "assets_ok db" and m: "xtt_create_evaluator ctx op db = Inr db'"
  shows "keeps 0 db db'"
proof -
  obtain ptr db1 t where s: "create_or_reset op ptr db = Inr db1"
    "tb_create same_token (\<lambda>_. xtt_token_default\<lparr>liquid_symbol := xc_symbol op,
      control_account := xc_control_account op, desired_ticker := xc_desired_ticker op\<rparr>) (tokens db1) = Inr t"
    and r: "(if \<not> is_pending_tx ctx then replenish_nai_pool (remove_from_nai_pool (xc_symbol op) (db1\<lparr>tokens := t\<rparr>))
      else Inr (remove_from_nai_pool (xc_symbol op) (db1\<lparr>tokens := t\<rparr>))) = Inr db'"
    using m unfolding xtt_create_evaluator_def Let_def res_bind_Inr on_table_Inr(10) by blast
  have k1: "keeps 0 db db1" using create_or_reset_keeps[OF ok s(1)] .
  note wf = assets_ok_tokens[OF keeps_ok[OF k1]]
  have k2: "keeps 0 db1 (db1\<lparr>tokens := t\<rparr>)"
    using tokens_update_keeps[OF keeps_ok[OF k1] token_table.wf_create[OF wf(1) s(2)]] tb_all_create[OF wf(1) s(2)] wf(2)
    by (simp add: xtt_token_default_def)
  have "keeps 0 (db1\<lparr>tokens := t\<rparr>) db'"
    using r by (intro keeps_frame[OF keeps_ok[OF k2]])
      (auto simp: remove_from_nai_pool_def replenish_nai_pool_def Let_def result_simps split: if_splits)
  then show ?thesis using k1 k2 keeps_zero_trans by blast
qed

lemma xtt_contribute_keeps:
  assumes ok: "assets_ok db" and v: "xtt_contribute_validate op = Inr ()" and m: "xtt_contribute_evaluator op db = Inr db'"
  shows "keeps 0 db db'"
proof -
  have sy: "symbol (xo_contribution op) = XGT_SYMBOL" "amount (xo_contribution op) > 0"
    using v by (auto simp: xtt_contribute_validate_def result_simps simp del: res_bind_fc_assert)
  define c where "c = \<lparr>ctb_symbol = xo_symbol op, ctb_contributor = xo_contributor op,
    ctb_contribution_id = xo_contribution_id op, ctb_contribution = xo_contribution op\<rparr>"
  obtain d db1 t j f where d: "asset_neg (xo_contribution op) = Inr d" and b: "adjust_balance (xo_contributor op) d db = Inr db1"
    and t: "tb_create same_contribution (\<lambda>_. c) (contributions db1) = Inr t"
    and i: "on_icos (tb_modify same_ico j f) (db1\<lparr>contributions := t\<rparr>) = Inr db'"
    using m unfolding xtt_contribute_evaluator_def c_def
    by (auto simp: res_bind_Inr on_table_Inr(13) simp del: res_bind_fc_assert split: option.splits)
  have k1: "keeps (amount d) db db1" using adjust_xgt_keeps[OF ok _ b] asset_neg_Inr[OF d] sy by simp
  have wf: "tb_wf same_contribution (contributions db1)" using keeps_ok[OF k1] by (simp add: assets_ok_def contributions_ok_def)
  have "keeps (amount (xo_contribution op)) db1 (db1\<lparr>contributions := t\<rparr>)"
    using keeps_ok[OF k1] contribution_table.wf_create[OF wf t] tb_all_create[OF wf t]
      tb_sum_create[OF wf t, of "\<lambda>c. amount (ctb_contribution c)"] sy
    by (simp add: keeps_def issues_def assets_ok_def xgt_in_system_def asset_defs xgt_amount_def c_def)
  from keeps_trans[OF k1 this] have k2: "keeps 0 db (db1\<lparr>contributions := t\<rparr>)" using asset_neg_Inr[OF d] by simp
  have "keeps 0 (db1\<lparr>contributions := t\<rparr>) db'" using i by (intro keeps_frame[OF keeps_ok[OF k2]]) (auto simp: result_simps)
  with k2 show ?thesis by (rule keeps_zero_trans)
qed

lemma fees_paid_create:
  assumes "assets_ok db" "fees_paid db" "tb_create same_escrow (\<lambda>_. e) (escrows db) = Inr t" "\<not> is_approved e"
  shows "fees_paid (db\<lparr>escrows := t\<rparr>)"
  using assms tb_all_create[of same_escrow "escrows db"] by (simp add: fees_paid_def assets_ok_def escrows_ok_def)

lemma fees_paid_modify:
  assumes "assets_ok db" "fees_paid db" "tb_modify same_escrow i f (escrows db) = Inr t"
    "map_of (tb_rows (escrows db)) i = Some e" "is_approved (f e) \<longrightarrow> amount (pending_fee (f e)) = 0"
  shows "fees_paid (db\<lparr>escrows := t\<rparr>)"
  using assms(2,5) tb_all_modify[OF _ assms(3,4)] assms(1) by (simp add: fees_paid_def assets_ok_def escrows_ok_def)

lemma keeps_fees_paid: "keeps x db db' \<Longrightarrow> fees_paid db \<Longrightarrow> fees_paid db'"
  by (simp add: keeps_def fees_paid_def)

lemma escrow_transfer_fees:
  assumes ok: "assets_ok db" "fees_paid db" and v: "escrow_transfer_validate env op = Inr ()"
    and m: "escrow_transfer_evaluator op db = Inr db'"
  shows "fees_paid db'"
  using ok(1) v m
proof (rule escrow_transfer_Inr)
  fix spent d db1 t
  assume s: "asset_add (et_xgt_amount op) (et_fee op) = Inr spent" "asset_neg spent = Inr d"
    "adjust_balance (et_from op) d db = Inr db1" "tb_create same_escrow (\<lambda>_. escrow_of op) (escrows db1) = Inr t"
    "db' = db1\<lparr>escrows := t\<rparr>" and sy: "symbol (et_xgt_amount op) = XGT_SYMBOL"
  have k: "keeps (amount d) db db1"
    using adjust_xgt_keeps[OF ok(1) _ s(3)] asset_add_Inr[OF s(1)] asset_neg_Inr[OF s(2)] sy by simp
  show ?thesis using fees_paid_create[OF keeps_ok[OF k] keeps_fees_paid[OF k ok(2)] s(4)] s(5)
    by (simp add: is_approved_def escrow_of_def escrow_default_def)
qed

lemma escrow_dispute_fees:
  assumes ok: "assets_ok db" "fees_paid db" and m: "escrow_dispute_evaluator op db = Inr db'"
  shows "fees_paid db'"
proof -
  obtain i e t where e: "get_escrow db (ed_from op) (ed_escrow_id op) = Inr (i, e)"
    and t: "tb_modify same_escrow i (\<lambda>e. e\<lparr>disputed := True\<rparr>) (escrows db) = Inr t" "db' = db\<lparr>escrows := t\<rparr>"
    using m by (auto simp: escrow_dispute_evaluator_def result_simps split: if_splits)
  note x = get_escrow_Inr[OF ok(1) e]
  show ?thesis using fees_paid_modify[OF ok t(1) x(1)] tb_allD[OF ok(2)[unfolded fees_paid_def] x(1)] t(2)
    by (simp add: is_approved_def)
qed

lemma escrow_release_fees:
  assumes ok: "assets_ok db" "fees_paid db" and m: "escrow_release_evaluator op db = Inr db'"
  shows "fees_paid db'"
proof -
  obtain i e db1 rest t where e: "get_escrow db (er_from op) (er_escrow_id op) = Inr (i, e)"
    and b: "adjust_balance (er_receiver op) (er_xgt_amount op) db = Inr db1"
    and rest: "asset_sub (xgt_balance e) (er_xgt_amount op) = Inr rest"
    and t: "tb_modify same_escrow i (\<lambda>e. e\<lparr>xgt_balance := rest\<rparr>) (escrows db1) = Inr t"
    and r: "(if amount rest = 0 then on_escrows (tb_remove i) (db1\<lparr>escrows := t\<rparr>) else Inr (db1\<lparr>escrows := t\<rparr>)) = Inr db'"
    using m unfolding escrow_release_evaluator_def res_bind_Inr on_table_Inr fc_assert_Inr split_paired_Ex case_prod_conv
    by (elim exE conjE) (hypsubst, rule that, assumption+)
  note x = get_escrow_Inr[OF ok(1) e]
  have "symbol (er_xgt_amount op) = XGT_SYMBOL" using asset_sub_Inr[OF rest] x(4) by (simp add: xgt_amount_def)
  then have k: "keeps (amount (er_xgt_amount op)) db db1" using adjust_xgt_keeps[OF ok(1) _ b] by simp
  have v: "map_of (tb_rows (escrows db1)) i = Some e" using x(1) k by (simp add: keeps_def)
  have f: "fees_paid (db1\<lparr>escrows := t\<rparr>)"
    using fees_paid_modify[OF keeps_ok[OF k] keeps_fees_paid[OF k ok(2)] t v] tb_allD[OF ok(2)[unfolded fees_paid_def] x(1)]
    by (simp add: is_approved_def)
  then show ?thesis using r tb_all_remove[of i t] by (auto simp: result_simps fees_paid_def split: if_splits)
qed

lemma tb_all_modified:
  assumes "tb_wf c t" "tb_modify c i f t = Inr t'" "map_of (tb_rows t) i = Some v"
    "\<And>j w. j \<noteq> i \<Longrightarrow> map_of (tb_rows t) j = Some w \<Longrightarrow> p w" "p (f v)"
  shows "tb_all p t'"
proof -
  have s: "set (tb_rows t') = insert (i, f v) {r \<in> set (tb_rows t). fst r \<noteq> i}"
    using assms(2,3) set_fm_update[OF tb_wf_sorted[OF assms(1)], of i "f v"] by (auto elim!: tb_modify_Inr)
  show ?thesis unfolding tb_all_def list_all_iff s using assms(4,5) tb_wf_map_of[OF assms(1)] by auto
qed

lemma fees_paid_iff:
  assumes "assets_ok db" "map_of (tb_rows (escrows db)) i = Some e"
  shows "fees_paid db \<longleftrightarrow> others_paid i db \<and> (is_approved e \<longrightarrow> amount (pending_fee e) = 0)"
proof -
  have "tb_wf same_escrow (escrows db)" using assms(1) by (simp add: assets_ok_def escrows_ok_def)
  note mo = tb_wf_map_of[OF this]
  have "fees_paid db \<longleftrightarrow> (\<forall>j e. map_of (tb_rows (escrows db)) j = Some e \<and> is_approved e \<longrightarrow> amount (pending_fee e) = 0)"
    unfolding fees_paid_def tb_all_def list_all_iff mo[symmetric] by auto
  then show ?thesis using assms(2) unfolding others_paid_def by (metis option.inject)
qed

lemma approve_as_others:
  assumes "approve_as p ap f g msg i (e, db) = Inr (e', db')" "others_paid i db"
  shows "others_paid i db'"
  using approve_as_Inr[OF assms(1)] assms(2) by (auto simp: others_paid_def elim!: tb_modify_Inr)

lemma escrow_settle_fees:
  assumes ok: "assets_ok db" and o: "others_paid i db"
    and p: "xgt_amount (xgt_balance e)" "xgt_amount (pending_fee e)" "map_of (tb_rows (escrows db)) i = Some e"
    and r: "settle_escrow op i e db = Inr db'"
  shows "fees_paid db'"
proof -
  have wf: "tb_wf same_escrow (escrows db)" using ok by (simp add: assets_ok_def escrows_ok_def)
  consider (reject) "\<not> ea_approve op" | (settle) "ea_approve op" "to_approved e" "agent_approved e"
    | (wait) "ea_approve op" "\<not> is_approved e"
    by (auto simp: is_approved_def)
  then show ?thesis
  proof cases
    case reject
    then obtain db1 db2 t where d: "adjust_balance (ea_from op) (xgt_balance e) db = Inr db1"
      "adjust_balance (ea_from op) (pending_fee e) db1 = Inr db2" "tb_remove i (escrows db2) = Inr t" "db' = db2\<lparr>escrows := t\<rparr>"
      using r by (auto simp: settle_escrow_def result_simps)
    have k1: "keeps (amount (xgt_balance e)) db db1" using adjust_xgt_keeps[OF ok _ d(1)] p(1) by (simp add: xgt_amount_def)
    have "keeps (amount (pending_fee e)) db1 db2" using adjust_xgt_keeps[OF keeps_ok[OF k1] _ d(2)] p(2) by (simp add: xgt_amount_def)
    then have "escrows db2 = escrows db" using k1 by (simp add: keeps_def)
    then have "tb_rows t = fm_erase i (tb_rows (escrows db))" using d(3) by (auto elim!: tb_remove_Inr)
    then show ?thesis using o tb_wf_map_of[OF wf] d(4)
      by (auto simp: fees_paid_def tb_all_def list_all_iff fm_erase_def others_paid_def)
  next
    case settle
    then obtain db1 t where d: "adjust_balance (ea_agent op) (pending_fee e) db = Inr db1"
      "tb_modify same_escrow i (\<lambda>e. e\<lparr>pending_fee := (pending_fee e)\<lparr>amount := 0\<rparr>\<rparr>) (escrows db1) = Inr t" "db' = db1\<lparr>escrows := t\<rparr>"
      using r by (auto simp: settle_escrow_def result_simps)
    have "keeps (amount (pending_fee e)) db db1" using adjust_xgt_keeps[OF ok _ d(1)] p(2) by (simp add: xgt_amount_def)
    then have e: "escrows db1 = escrows db" by (simp add: keeps_def)
    have "tb_all (\<lambda>e. is_approved e \<longrightarrow> amount (pending_fee e) = 0) t"
      by (rule tb_all_modified[OF wf d(2)[unfolded e] p(3)]) (use o in \<open>auto simp: others_paid_def\<close>)
    then show ?thesis using d(3) by (simp add: fees_paid_def)
  next
    case wait then show ?thesis using r o fees_paid_iff[OF ok p(3)] by (auto simp: settle_escrow_def is_approved_def)
  qed
qed

lemma escrow_approve_Inr:
  assumes ok: "assets_ok db" and m: "escrow_approve_evaluator op db = Inr db'"
  obtains i e db1 where "issues 0 db db1" "fees_paid db \<Longrightarrow> others_paid i db1"
    "xgt_amount (xgt_balance e)" "xgt_amount (pending_fee e)" "map_of (tb_rows (escrows db1)) i = Some e"
    "settle_escrow op i e db1 = Inr db'"
proof -
  obtain i e where e: "get_escrow db (ea_from op) (ea_escrow_id op) = Inr (i, e)"
    using m by (auto simp: escrow_approve_evaluator_def result_simps)
  obtain e1 db1 e2 db2 where
    a1: "approve_as (ea_who op = ea_to op) (ea_approve op) to_approved (\<lambda>e. e\<lparr>to_approved := True\<rparr>)
      ''Account to has already approved the escrow.'' i (e, db) = Inr (e1, db1)"
    and a2: "approve_as (ea_who op = ea_agent op) (ea_approve op) agent_approved (\<lambda>e. e\<lparr>agent_approved := True\<rparr>)
      ''Account agent has already approved the escrow.'' i (e1, db1) = Inr (e2, db2)"
    and r: "settle_escrow op i e2 db2 = Inr db'"
    using m e by (auto simp: escrow_approve_evaluator_def res_bind_Inr split: if_splits prod.splits)
  note x = get_escrow_Inr[OF ok e]
  have s1: "issues 0 db db1 \<and> map_of (tb_rows (escrows db1)) i = Some e1 \<and> xgt_balance e1 = xgt_balance e \<and> pending_fee e1 = pending_fee e"
    by (rule approve_as_issues[OF ok a1 x(1)]) simp
  then have ok1: "assets_ok db1" by (simp add: issues_def)
  have s2: "issues 0 db1 db2 \<and> map_of (tb_rows (escrows db2)) i = Some e2 \<and> xgt_balance e2 = xgt_balance e1 \<and> pending_fee e2 = pending_fee e1"
    by (rule approve_as_issues[OF ok1 a2]) (use s1 in simp_all)
  have i2: "issues 0 db db2" using issues_trans[of 0 db db1 0 db2] s1 s2 by simp
  have "others_paid i db2" if "fees_paid db"
    using approve_as_others[OF a2 approve_as_others[OF a1]] fees_paid_iff[OF ok x(1)] that by blast
  then show ?thesis using that[OF i2 _ _ _ _ r] s1 s2 x by simp
qed

lemma escrow_approve_issues:
  assumes ok: "assets_ok db" and m: "escrow_approve_evaluator op db = Inr db'"
  shows "issues 0 db db'"
  using ok m
proof (rule escrow_approve_Inr)
  fix i e db1
  assume i: "issues 0 db db1" and p: "xgt_amount (xgt_balance e)" "xgt_amount (pending_fee e)" "map_of (tb_rows (escrows db1)) i = Some e"
    and r: "settle_escrow op i e db1 = Inr db'"
  have "assets_ok db1" using i by (simp add: issues_def)
  from escrow_settle_issues[OF this p r] show ?thesis using issues_trans[OF i] by simp
qed

lemma escrow_approve_fees:
  assumes ok: "assets_ok db" "fees_paid db" and m: "escrow_approve_evaluator op db = Inr db'"
  shows "fees_paid db'"
  using ok(1) m
proof (rule escrow_approve_Inr)
  fix i e db1
  assume i: "issues 0 db db1" "fees_paid db \<Longrightarrow> others_paid i db1"
    and p: "xgt_amount (xgt_balance e)" "xgt_amount (pending_fee e)" "map_of (tb_rows (escrows db1)) i = Some e"
    and r: "settle_escrow op i e db1 = Inr db'"
  have "assets_ok db1" using i(1) by (simp add: issues_def)
  from escrow_settle_fees[OF this i(2)[OF ok(2)] p r] show ?thesis .
qed

lemma keeps_step: "keeps 0 db db' \<Longrightarrow> fees_paid db \<Longrightarrow> step_ok op db db'"
  by (simp add: step_ok_def funds_ok_def keeps_def issues_def fees_paid_def)

lemma issues_step: "issues 0 db db' \<Longrightarrow> fees_paid db' \<Longrightarrow> step_ok op db db'"
  by (simp add: step_ok_def funds_ok_def issues_def)

lemma apply_operation_step:
  assumes ok: "funds_ok db" and i: "interpreters_keep ctx" and v: "operation_validate env op = Inr ()"
    and m: "apply_operation ctx op db = Inr db'"
  shows "step_ok op db db'"
proof -
  have a: "assets_ok db" "fees_paid db" using ok by (simp_all add: funds_ok_def)
  note k = keeps_step[OF _ a(2), of db' op]
  show ?thesis
  proof (cases op)
    case (Escrow_Transfer_Op x)
    then show ?thesis using v m escrow_transfer_issues[OF a(1), of env x db'] escrow_transfer_fees[OF a, of env x db'] issues_step by simp
  next
    case (Escrow_Approve_Op x)
    then show ?thesis using m escrow_approve_issues[OF a(1), of x db'] escrow_approve_fees[OF a, of x db'] issues_step by simp
  next
    case (Escrow_Dispute_Op x)
    then show ?thesis using m escrow_dispute_issues[OF a(1), of x db'] escrow_dispute_fees[OF a, of x db'] issues_step by simp
  next
    case (Escrow_Release_Op x)
    then show ?thesis using m escrow_release_issues[OF a, of x db'] escrow_release_fees[OF a, of x db'] issues_step by simp
  next
    case (Pow_Op x)
    then show ?thesis using m pow_keeps[OF a(1), of ctx x db'] k a(2)
      by (auto simp: step_ok_def funds_ok_def keeps_def issues_def fees_paid_def)
  next
    case (Vote_Op x) then show ?thesis using k m  vote_keeps[OF a(1)] by simp
  next
    case (Comment_Op x) then show ?thesis using k m  comment_keeps[OF a(1)] by simp
  next
    case (Comment_Options_Op x) then show ?thesis using k m  comment_options_keeps[OF a(1)] by simp
  next
    case (Delete_Comment_Op x) then show ?thesis using k m  delete_comment_keeps[OF a(1)] by simp
  next
    case (Transfer_Op x) then show ?thesis using k m v transfer_keeps[OF a(1)] by simp
  next
    case (Wallet_Create_Op x) then show ?thesis using k m  wallet_create_keeps[OF a(1)] by simp
  next
    case (Wallet_Update_Op x) then show ?thesis using k m  wallet_update_keeps[OF a(1)] by simp
  next
    case (Witness_Update_Op x) then show ?thesis using k m  witness_update_keeps[OF a(1)] by simp
  next
    case (Custom_Op x) then show ?thesis using k m  custom_keeps[OF a(1)] by simp
  next
    case (Custom_Json_Op x) then show ?thesis using k m  custom_json_keeps[OF a(1) i] by simp
  next
    case (Xtt_Setup_Op x) then show ?thesis using k m  xtt_setup_keeps[OF a(1)] by simp
  next
    case (Xtt_Setup_Ico_Tier_Op x) then show ?thesis using k m  xtt_setup_ico_tier_keeps[OF a(1)] by simp
  next
    case (Xtt_Set_Setup_Parameters_Op x) then show ?thesis using k m  xtt_parameters_keep(1)[OF a(1)] by simp
  next
    case (Xtt_Set_Runtime_Parameters_Op x) then show ?thesis using k m  xtt_parameters_keep(2)[OF a(1)] by simp
  next
    case (Xtt_Create_Op x) then show ?thesis using k m  xtt_create_keeps[OF a(1)] by simp
  next
    case (Xtt_Contribute_Op x) then show ?thesis using k m v xtt_contribute_keeps[OF a(1)] by simp
  next
    case (Contract_Create_Op x) then show ?thesis using k m  contract_create_keeps[OF a(1)] by simp
  qed (use m k keeps_refl[OF a(1)] in \<open>simp_all add: report_over_production_evaluator_def contract_invoke_evaluator_def\<close>)
qed

lemma sample_funds: "funds_ok sample_chain"
  by (simp add: funds_ok_def assets_ok_def wallets_ok_def escrows_ok_def contributions_ok_def no_tokens_issued_def
      fees_paid_def sample_chain_def chain_db_init_def tb_wf_def tb_all_def tb_empty_def fm_sorted_def same_wallet_def
      sample_wallet_def xgt_amount_def) (auto simp: sample_wallet_def)

lemma sample_interpreters: "interpreters_keep sample_ctx"
  by (simp add: interpreters_keep_def sample_ctx_def)

lemma sample_transfer_valid: "operation_validate (ctx_env sample_ctx) sample_transfer = Inr ()"
  by code_simp

lemma sample_transfer_ok: "is_ok (apply_operation sample_ctx sample_transfer sample_chain)"
  by code_simp

section \<open>Properties\<close>

text \<open>C37: no operation creates or destroys XGT: whenever a validated operation is applied, the ledger stays well-formed (unique keys, amounts of XGT that are not negative, the fee of every approved escrow paid out, no token issued) and the XGT held by all wallets, escrows and ICO contributions together is what it was; only a proof of work adds to it, and exactly the mining reward. The interpreters of custom operations, which plugins provide, are assumed to keep to their own tables.\<close>

theorem operation_conserves_xgt:
  assumes "funds_ok db" and "interpreters_keep ctx" and "operation_validate env op = Inr ()"
    and "apply_operation ctx op db = Inr db'"
  shows "funds_ok db' \<and> (xgt_in_system db' = xgt_in_system db
      \<or> is_pow_operation op \<and> xgt_in_system db' = xgt_in_system db + amount XGT_MINING_REWARD)"
  using apply_operation_step[OF assms] by (simp only: step_ok_def)

theorem operation_conserves_xgt_witness:
  "\<exists>db'. apply_operation sample_ctx sample_transfer sample_chain = Inr db' \<and> funds_ok db'
     \<and> xgt_in_system db' = xgt_in_system sample_chain"
proof -
  obtain db' where r: "apply_operation sample_ctx sample_transfer sample_chain = Inr db'"
    using sample_transfer_ok by (cases "apply_operation sample_ctx sample_transfer sample_chain") simp_all
  show ?thesis using operation_conserves_xgt[OF sample_funds sample_interpreters sample_transfer_valid r] r
    by (simp add: sample_transfer_def)
qed

end
