(* ===== verification/Spec2Isabelle.thy ===== *)
theory Spec2Isabelle
  imports Asset_Symbol Fc_Arith Asset_Price Authority Chainbase_Undo Utf8 Fc_Sha256 Block Fork_Database Conservation
begin

text \<open>
  A verification development of the XGT node.
\<close>

end
